theory Spec2Isabelle
  imports Complex_Main "HOL-Library.Log_Nat"
begin

section \<open>Numbers and strings of the analyzer\<close>

text \<open>
  The estimators of \<^verbatim>\<open>consumption-analyzer.js\<close> compute with JavaScript numbers:
  64-bit binary floating point. A number is modelled as the rational it denotes, or as
  one of the three special values. Every sum, product and quotient is rounded to the
  nearest double, a tie going to the even significand, and becomes an infinity when it
  leaves the range. The negative zero is identified with zero (the two are equal under
  \<^verbatim>\<open>===\<close>).
\<close>

datatype jsnum = Fin rat | PInf | NInf | NaN

text \<open>The nearest integer, a tie going to the even one.\<close>

definition round_half_even :: "rat \<Rightarrow> int" where
  "round_half_even q =
     (let f = \<lfloor>q\<rfloor>; r = q - of_int f
      in if r < 1 / 2 then f else if 1 / 2 < r then f + 1 else if even f then f else f + 1)"

text \<open>
  A binary format with \<open>p + 1\<close> significant bits, least normal exponent \<open>- emin\<close> and
  numbers below \<open>2 ^ emax\<close>. The spacing of the format around \<open>x\<close> is
  \<open>2 ^ ulp_shift emin x / 2 ^ (emin + p)\<close>: the exponent of \<open>x\<close> is read from the bit
  length of \<open>\<bar>x\<bar> * 2 ^ emin\<close>, and below the normal range the spacing stays at its
  least value.
\<close>

definition ulp_shift :: "nat \<Rightarrow> rat \<Rightarrow> nat" where
  "ulp_shift emin x = nat (bitlen \<lfloor>\<bar>x\<bar> * 2 ^ emin\<rfloor> - 1)"

definition round_binary :: "nat \<Rightarrow> nat \<Rightarrow> nat \<Rightarrow> rat \<Rightarrow> jsnum" where
  "round_binary p emin emax x =
     (let s = ulp_shift emin x;
          n = round_half_even (x * 2 ^ (emin + p) / 2 ^ s);
          y = of_int (n * 2 ^ s) / 2 ^ (emin + p)
      in if 2 ^ emax \<le> \<bar>y\<bar> then (if x < 0 then NInf else PInf) else Fin y)"

text \<open>Doubles: 53 significant bits, exponents from -1022, numbers below \<open>2 ^ 1024\<close>.\<close>

definition round_double :: "rat \<Rightarrow> jsnum" where
  "round_double x = round_binary 52 1022 1024 x"

text \<open>
  A number that the program reads from parsed JSON is the double nearest to the decimal
  of the text; a double stays as it is.
\<close>

fun read_number :: "jsnum \<Rightarrow> jsnum" where
  "read_number (Fin a) = round_double a"
| "read_number x = x"

text \<open>\<^verbatim>\<open>a + b\<close>\<close>

fun js_add :: "jsnum \<Rightarrow> jsnum \<Rightarrow> jsnum" where
  "js_add (Fin a) (Fin b) = round_double (a + b)"
| "js_add NaN _ = NaN"
| "js_add _ NaN = NaN"
| "js_add PInf NInf = NaN"
| "js_add NInf PInf = NaN"
| "js_add PInf _ = PInf"
| "js_add _ PInf = PInf"
| "js_add NInf _ = NInf"
| "js_add _ NInf = NInf"

text \<open>\<^verbatim>\<open>a - b\<close>\<close>

fun js_neg :: "jsnum \<Rightarrow> jsnum" where
  "js_neg (Fin a) = Fin (- a)"
| "js_neg PInf = NInf"
| "js_neg NInf = PInf"
| "js_neg NaN = NaN"

definition js_sub :: "jsnum \<Rightarrow> jsnum \<Rightarrow> jsnum" where
  "js_sub a b = js_add a (js_neg b)"

text \<open>The sign of a number that is not NaN: \<open>-1\<close>, \<open>0\<close> or \<open>1\<close>.\<close>

fun js_sign :: "jsnum \<Rightarrow> int" where
  "js_sign (Fin a) = (if a < 0 then - 1 else if a = 0 then 0 else 1)"
| "js_sign PInf = 1"
| "js_sign NInf = - 1"
| "js_sign NaN = 0"

definition inf_of_sign :: "int \<Rightarrow> jsnum" where
  "inf_of_sign s = (if s < 0 then NInf else PInf)"

text \<open>\<^verbatim>\<open>a * b\<close>: zero times an infinity is NaN.\<close>

fun js_mul :: "jsnum \<Rightarrow> jsnum \<Rightarrow> jsnum" where
  "js_mul (Fin a) (Fin b) = round_double (a * b)"
| "js_mul NaN _ = NaN"
| "js_mul _ NaN = NaN"
| "js_mul x y =
     (if js_sign x = 0 \<or> js_sign y = 0 then NaN else inf_of_sign (js_sign x * js_sign y))"

text \<open>
  \<^verbatim>\<open>a / b\<close>: a finite number over zero is an infinity of its sign, zero over zero
  and infinity over infinity are NaN, a finite number over an infinity is zero.
\<close>

fun js_div :: "jsnum \<Rightarrow> jsnum \<Rightarrow> jsnum" where
  "js_div (Fin a) (Fin b) =
     (if b = 0 then (if a = 0 then NaN else inf_of_sign (js_sign (Fin a)))
      else round_double (a / b))"
| "js_div NaN _ = NaN"
| "js_div _ NaN = NaN"
| "js_div (Fin a) _ = Fin 0"
| "js_div x (Fin b) = inf_of_sign (js_sign x * (if b < 0 then - 1 else 1))"
| "js_div _ _ = NaN"

text \<open>\<^verbatim>\<open>a < b\<close>, false when either side is NaN.\<close>

fun js_less :: "jsnum \<Rightarrow> jsnum \<Rightarrow> bool" where
  "js_less (Fin a) (Fin b) = (a < b)"
| "js_less NaN _ = False"
| "js_less _ NaN = False"
| "js_less _ NInf = False"
| "js_less PInf _ = False"
| "js_less _ _ = True"

text \<open>\<^verbatim>\<open>Math.min\<close> and \<^verbatim>\<open>Math.max\<close> of two numbers: NaN when either is NaN.\<close>

definition math_min :: "jsnum \<Rightarrow> jsnum \<Rightarrow> jsnum" where
  "math_min a b = (if a = NaN \<or> b = NaN then NaN else if js_less b a then b else a)"

definition math_max :: "jsnum \<Rightarrow> jsnum \<Rightarrow> jsnum" where
  "math_max a b = (if a = NaN \<or> b = NaN then NaN else if js_less a b then b else a)"

text \<open>
  \<^verbatim>\<open>Math.round\<close>: the nearest integer, a tie going up; the special values stay. The
  result of rounding a double is a double, so no second rounding applies.
\<close>

definition math_round :: "rat \<Rightarrow> rat" where
  "math_round x = of_int \<lfloor>x + 1 / 2\<rfloor>"

fun js_round :: "jsnum \<Rightarrow> jsnum" where
  "js_round (Fin a) = Fin (math_round a)"
| "js_round x = x"

text \<open>\<^verbatim>\<open>x === 0\<close>\<close>

definition js_is_zero :: "jsnum \<Rightarrow> bool" where
  "js_is_zero x = (x = Fin 0)"

text \<open>\<^verbatim>\<open>x || 0\<close> on a number: zero and NaN are falsy.\<close>

definition or_zero :: "jsnum \<Rightarrow> jsnum" where
  "or_zero x = (if x = Fin 0 \<or> x = NaN then Fin 0 else x)"

text \<open>A number that is a finite integer, not below zero.\<close>

fun finite_nonneg_integer :: "jsnum \<Rightarrow> bool" where
  "finite_nonneg_integer (Fin a) = (0 \<le> a \<and> a = of_int \<lfloor>a\<rfloor>)"
| "finite_nonneg_integer _ = False"

fun finite_nonneg :: "jsnum \<Rightarrow> bool" where
  "finite_nonneg (Fin a) = (0 \<le> a)"
| "finite_nonneg _ = False"

fun is_finite :: "jsnum \<Rightarrow> bool" where
  "is_finite (Fin a) = True"
| "is_finite _ = False"

text \<open>A number that is not negative and not NaN: finite and not below zero, or Infinity.\<close>

fun nonneg_or_infinity :: "jsnum \<Rightarrow> bool" where
  "nonneg_or_infinity (Fin a) = (0 \<le> a)"
| "nonneg_or_infinity PInf = True"
| "nonneg_or_infinity _ = False"

text \<open>An integer that is not negative, or Infinity.\<close>

fun nonneg_integer_or_infinity :: "jsnum \<Rightarrow> bool" where
  "nonneg_integer_or_infinity (Fin a) = (0 \<le> a \<and> a = of_int \<lfloor>a\<rfloor>)"
| "nonneg_integer_or_infinity PInf = True"
| "nonneg_integer_or_infinity _ = False"

text \<open>A finite number between zero and \<open>2 ^ K\<close>.\<close>

fun below_pow2 :: "nat \<Rightarrow> jsnum \<Rightarrow> bool" where
  "below_pow2 K (Fin y) = (0 \<le> y \<and> y \<le> 2 ^ K)"
| "below_pow2 K _ = False"

text \<open>
  Strings are lists of characters. \<^verbatim>\<open>toLowerCase\<close> is modelled on the ASCII
  letters; \<^verbatim>\<open>includes\<close> is the search for a contiguous substring.
\<close>

definition lower_char :: "char \<Rightarrow> char" where
  "lower_char c =
     (let n = (of_char c :: nat) in if 65 \<le> n \<and> n \<le> 90 then char_of (n + 32) else c)"

definition toLowerCase :: "string \<Rightarrow> string" where
  "toLowerCase s = map lower_char s"

fun starts_with :: "string \<Rightarrow> string \<Rightarrow> bool" where
  "starts_with s [] = True"
| "starts_with [] (p # ps) = False"
| "starts_with (c # cs) (p # ps) = (c = p \<and> starts_with cs ps)"

fun includes_str :: "string \<Rightarrow> string \<Rightarrow> bool" where
  "includes_str [] p = (p = [])"
| "includes_str (c # cs) p = (starts_with (c # cs) p \<or> includes_str cs p)"

text \<open>The truthiness of an optional string: absent, null and the empty string are falsy.\<close>

fun truthy_string :: "string option \<Rightarrow> string option" where
  "truthy_string None = None"
| "truthy_string (Some s) = (if s = [] then None else Some s)"

text \<open>
  \<^verbatim>\<open>trim\<close> and \<^verbatim>\<open>parseInt(s, 10)\<close>, with the ASCII white space: \<^verbatim>\<open>parseInt\<close> skips
  leading white space, reads a sign and the longest run of decimal digits after it, and
  gives NaN when there is no digit.
\<close>

definition is_space :: "char \<Rightarrow> bool" where
  "is_space c = (let n = (of_char c :: nat) in n = 32 \<or> (9 \<le> n \<and> n \<le> 13))"

definition trim :: "string \<Rightarrow> string" where
  "trim s = rev (dropWhile is_space (rev (dropWhile is_space s)))"

definition is_digit :: "char \<Rightarrow> bool" where
  "is_digit c = (let n = (of_char c :: nat) in 48 \<le> n \<and> n \<le> 57)"

definition digits_value :: "string \<Rightarrow> int" where
  "digits_value ds = foldl (\<lambda>n c. 10 * n + (of_char c - 48)) 0 ds"

definition parseInt :: "string \<Rightarrow> jsnum" where
  "parseInt s =
     (let t = dropWhile is_space s;
          negative = (case t of [] \<Rightarrow> False | c # r \<Rightarrow> c = CHR ''-'');
          u = (case t of [] \<Rightarrow> [] | c # r \<Rightarrow> if c = CHR ''-'' \<or> c = CHR ''+'' then r else t);
          ds = takeWhile is_digit u
      in if ds = [] then NaN
         else round_double ((if negative then - 1 else 1) * of_int (digits_value ds)))"

section \<open>Flow estimates\<close>

datatype confidence = High | Medium | Low | NoConfidence

datatype error = TypeError | FsError | ShellError

text \<open>
  The result object of the two flow estimators. \<open>sizeMB\<close> holds the artifact's size in MB
  (the source formats it to two decimals), \<open>actualAnalysis\<close> the flag of
  \<^verbatim>\<open>details\<close>; the metadata estimator sets neither.
\<close>

record flow_estimate =
  estimatedFlows :: jsnum
  confidence :: confidence
  source :: string
  sizeMB :: "rat option"
  actualAnalysis :: "bool option"

text \<open>
  A field of the application details that the estimator reads as a name: absent or
  falsy, a string, or a truthy value that is not a string (a number, \<^verbatim>\<open>true\<close>, an
  object, an array), on which \<^verbatim>\<open>toLowerCase\<close> is not a function.
\<close>

datatype name_field = Absent | Text string | NotText

text \<open>
  The part of the application details that \<^verbatim>\<open>estimateBasedOnAppDetails\<close> reads.
  A number field that is absent or does not hold a number is \<open>None\<close>; a number is
  held as the decimal of the JSON text and read as the double nearest to it.
\<close>

record worker_type =
  weight :: "rat option"

record workers =
  amount :: "rat option"
  type :: "worker_type option"

record app_details =
  fileName :: name_field
  domain :: name_field
  workers :: "workers option"

text \<open>
  \<^verbatim>\<open>if (x) { ... x.toLowerCase() ... }\<close>: nothing for a falsy field, the lower-cased
  string for a string that is not empty, and a \<^verbatim>\<open>TypeError\<close> for any other truthy
  value.
\<close>

fun lowered :: "name_field \<Rightarrow> error + string option" where
  "lowered Absent = Inr None"
| "lowered (Text s) = Inr (if s = [] then None else Some (toLowerCase s))"
| "lowered NotText = Inl TypeError"

text \<open>The running pair \<^verbatim>\<open>(estimatedFlows, source)\<close> of the estimator.\<close>

type_synonym flow_acc = "jsnum \<times> string"

definition fileName_pattern :: "string \<Rightarrow> flow_acc \<Rightarrow> flow_acc" where
  "fileName_pattern nm acc =
     (if includes_str nm ''eapi'' \<or> includes_str nm ''experience-api''
        then (Fin 5, ''EAPI filename pattern'')
      else if includes_str nm ''papi'' \<or> includes_str nm ''process-api''
        then (Fin 7, ''PAPI filename pattern'')
      else if includes_str nm ''sapi'' \<or> includes_str nm ''system-api''
        then (Fin 3, ''SAPI filename pattern'')
      else acc)"

definition domain_pattern :: "string \<Rightarrow> flow_acc \<Rightarrow> flow_acc" where
  "domain_pattern nm acc =
     (if includes_str nm ''eapi'' \<or> includes_str nm ''experience''
        then (Fin 5, ''EAPI domain pattern'')
      else if includes_str nm ''papi'' \<or> includes_str nm ''process''
        then (Fin 7, ''PAPI domain pattern'')
      else if includes_str nm ''sapi'' \<or> includes_str nm ''system''
        then (Fin 3, ''SAPI domain pattern'')
      else acc)"

definition integration_pattern :: "string \<Rightarrow> flow_acc \<Rightarrow> flow_acc" where
  "integration_pattern nm acc =
     (if includes_str nm ''salesforce'' \<or> includes_str nm ''sfdc''
        then (js_add (fst acc) (Fin 2), snd acc @ '' + Salesforce pattern'')
      else if includes_str nm ''onbase'' \<or> includes_str nm ''database''
        then (js_add (fst acc) (Fin 1), snd acc @ '' + Database pattern'')
      else if includes_str nm ''splunk''
        then (js_add (fst acc) (Fin 1), snd acc @ '' + Splunk pattern'')
      else acc)"

definition name_patterns :: "app_details \<Rightarrow> flow_acc \<Rightarrow> error + flow_acc" where
  "name_patterns d acc =
     (case lowered (fileName d) of
        Inl e \<Rightarrow> Inl e
      | Inr (Some nm) \<Rightarrow> Inr (integration_pattern nm (fileName_pattern nm acc))
      | Inr None \<Rightarrow>
          (case lowered (domain d) of
             Inl e \<Rightarrow> Inl e
           | Inr (Some nm) \<Rightarrow> Inr (integration_pattern nm (domain_pattern nm acc))
           | Inr None \<Rightarrow> Inr acc))"

definition multiple_workers :: "workers \<Rightarrow> flow_acc \<Rightarrow> flow_acc" where
  "multiple_workers w acc =
     (case amount w of
        Some a \<Rightarrow>
          (if js_less (Fin 1) (round_double a)
             then (js_add (fst acc) (math_min (Fin 3) (js_sub (round_double a) (Fin 1))),
                   snd acc @ '' + Multiple workers'')
           else acc)
      | None \<Rightarrow> acc)"

text \<open>The double that the literal \<^verbatim>\<open>0.1\<close> denotes.\<close>

definition literal_0_1 :: rat where
  "literal_0_1 = 3602879701896397 / 36028797018963968"

definition larger_worker_size :: "workers \<Rightarrow> flow_acc \<Rightarrow> flow_acc" where
  "larger_worker_size w acc =
     (case type w of
        Some t \<Rightarrow>
          (case weight t of
             Some wt \<Rightarrow>
               (if js_less (Fin literal_0_1) (round_double wt)
                  then (js_add (fst acc)
                          (math_min (Fin 3) (js_round (js_mul (round_double wt) (Fin 10)))),
                        snd acc @ '' + Larger worker size'')
                else acc)
           | None \<Rightarrow> acc)
      | None \<Rightarrow> acc)"

definition worker_hints :: "app_details \<Rightarrow> flow_acc \<Rightarrow> flow_acc" where
  "worker_hints d acc =
     (case workers d of
        Some w \<Rightarrow> larger_worker_size w (multiple_workers w acc)
      | None \<Rightarrow> acc)"

definition cap_flows :: "jsnum \<Rightarrow> jsnum" where
  "cap_flows x = math_max (Fin 1) (math_min (Fin 20) x)"

definition estimateBasedOnAppDetails :: "app_details option \<Rightarrow> error + flow_estimate" where
  "estimateBasedOnAppDetails appDetails =
     (case appDetails of
        None \<Rightarrow>
          Inr \<lparr>estimatedFlows = Fin 2, confidence = Low,
               source = ''Default estimate (no metadata)'', sizeMB = None, actualAnalysis = None\<rparr>
      | Some d \<Rightarrow>
          (case name_patterns d (Fin 2, ''Application metadata'') of
             Inl e \<Rightarrow> Inl e
           | Inr named \<Rightarrow>
               (let acc = worker_hints d named
                in Inr \<lparr>estimatedFlows = cap_flows (fst acc), confidence = Low, source = snd acc,
                        sizeMB = None, actualAnalysis = None\<rparr>)))"

section \<open>The artifact flow counter\<close>

text \<open>
  What \<^verbatim>\<open>analyzeJarForFlows\<close> asks of the machine it runs on, as functions of the
  artifact's path: \<^verbatim>\<open>fs.existsSync\<close>, which never throws; \<^verbatim>\<open>fs.statSync\<close>, which
  throws or gives the size in bytes; and the shell commands of the extraction step.
  \<open>muleConfigs\<close> is \<open>Inl\<close> when that step throws (the scratch directory cannot be made),
  and otherwise holds one entry per Mule configuration file found by \<^verbatim>\<open>find\<close>, with
  what the three \<^verbatim>\<open>grep -c PATTERN FILE || echo 0\<close> commands print for it. A command
  prints a count, or a count and a second line; it prints nothing when the shell cannot
  parse it, as for a file name with a backquote.
\<close>

record host =
  existsSync :: "string \<Rightarrow> bool"
  statSync :: "string \<Rightarrow> error + nat"
  muleConfigs :: "string \<Rightarrow> error + (string \<times> string \<times> string) list"

text \<open>\<^verbatim>\<open>try { body } catch (e) { handler }\<close>\<close>

definition try_catch :: "error + 'a \<Rightarrow> (error \<Rightarrow> error + 'a) \<Rightarrow> error + 'a" where
  "try_catch body handler = (case body of Inl e \<Rightarrow> handler e | Inr v \<Rightarrow> Inr v)"

text \<open>
  The loop over the configuration files, on
  \<^verbatim>\<open>(totalFlows, totalSubFlows, totalOtherFlows)\<close>, with
  \<^verbatim>\<open>parseInt(stdout.trim(), 10)\<close> of each command.
\<close>

definition count_config ::
  "jsnum \<times> jsnum \<times> jsnum \<Rightarrow> string \<times> string \<times> string \<Rightarrow> jsnum \<times> jsnum \<times> jsnum" where
  "count_config totals out =
     (case totals of (totalFlows, totalSubFlows, totalOtherFlows) \<Rightarrow>
        (case out of (flowOut, subFlowOut, otherFlowOut) \<Rightarrow>
           (js_add totalFlows (parseInt (trim flowOut)),
            js_add totalSubFlows (parseInt (trim subFlowOut)),
            js_add totalOtherFlows (parseInt (trim otherFlowOut)))))"

text \<open>
  Step 1, the inner \<^verbatim>\<open>try\<close>: \<^verbatim>\<open>(extractedFlows, flowSource)\<close>, or \<open>None\<close> when
  \<^verbatim>\<open>extractedFlows\<close> stays \<^verbatim>\<open>null\<close>.
\<close>

definition extract_flows :: "host \<Rightarrow> string \<Rightarrow> (jsnum \<times> string) option" where
  "extract_flows h jarPath =
     (case muleConfigs h jarPath of
        Inl extractError \<Rightarrow> None
      | Inr muleConfigFiles \<Rightarrow>
          (if length muleConfigFiles > 0
             then (case foldl count_config (Fin 0, Fin 0, Fin 0) muleConfigFiles of
                     (totalFlows, totalSubFlows, totalOtherFlows) \<Rightarrow>
                       Some (js_add (js_add totalFlows totalSubFlows) totalOtherFlows,
                             ''XML analysis''))
           else None))"

text \<open>
  The size heuristic. The size in MB is the byte count over \<open>2 ^ 20\<close> and is then
  divided by \<open>1 / 2\<close>: both change the exponent of a double only, so they are exact.
\<close>

definition size_heuristic :: "rat \<Rightarrow> rat" where
  "size_heuristic fileSizeInMB = max 1 (min 20 (math_round (fileSizeInMB / (1 / 2))))"

definition analyzeJarForFlows ::
  "host \<Rightarrow> string option \<Rightarrow> app_details option \<Rightarrow> error + flow_estimate" where
  "analyzeJarForFlows h jarPath appDetails =
     (case truthy_string jarPath of
        None \<Rightarrow> estimateBasedOnAppDetails appDetails
      | Some p \<Rightarrow>
          (if \<not> existsSync h p then estimateBasedOnAppDetails appDetails
           else try_catch
             (case statSync h p of
                Inl e \<Rightarrow> Inl e
              | Inr bytes \<Rightarrow>
                  (let fileSizeInMB = of_nat bytes / (1024 * 1024)
                   in (case extract_flows h p of
                         Some (extractedFlows, flowSource) \<Rightarrow>
                           Inr \<lparr>estimatedFlows = extractedFlows, confidence = High,
                                source = flowSource, sizeMB = Some fileSizeInMB,
                                actualAnalysis = Some True\<rparr>
                       | None \<Rightarrow>
                           Inr \<lparr>estimatedFlows = Fin (size_heuristic fileSizeInMB),
                                confidence = Low, source = ''JAR size heuristic'',
                                sizeMB = Some fileSizeInMB, actualAnalysis = Some False\<rparr>)))
             (\<lambda>e. estimateBasedOnAppDetails appDetails)))"

section \<open>The message volume estimator\<close>

text \<open>
  The monitoring payload. A field that is absent or \<^verbatim>\<open>null\<close> is \<open>None\<close>; \<open>count\<close> and
  \<open>average\<close> are \<open>None\<close> unless \<^verbatim>\<open>typeof\<close> gives \<^verbatim>\<open>'number'\<close>; \<open>flowMetrics\<close> is \<open>None\<close>
  unless it is an array. \<open>flow_messageCount\<close> is the \<^verbatim>\<open>messageCount\<close> of one flow.
\<close>

record message_count =
  count :: "jsnum option"

record flow_metric =
  flow_messageCount :: "message_count option"

record message_data =
  messageCount :: "message_count option"

record cpu_metric =
  average :: "jsnum option"

record resource_data =
  cpu :: "cpu_metric option"

record period =
  days :: jsnum

record monitoring_data =
  messageData :: "message_data option"
  resourceData :: "resource_data option"
  flowMetrics :: "flow_metric list option"
  period :: period

text \<open>
  The result object; \<open>msg_confidence\<close> and \<open>msg_source\<close> are its \<^verbatim>\<open>confidence\<close> and
  \<^verbatim>\<open>source\<close>.
\<close>

record message_estimate =
  estimatedDailyMessages :: jsnum
  estimatedMonthlyMessages :: jsnum
  msg_confidence :: confidence
  msg_source :: string

text \<open>\<^verbatim>\<open>x.messageCount && typeof x.messageCount.count === 'number'\<close>, with the count.\<close>

definition numeric_count :: "message_count option \<Rightarrow> jsnum option" where
  "numeric_count mc = (case mc of None \<Rightarrow> None | Some c \<Rightarrow> map_option read_number (count c))"

text \<open>\<^verbatim>\<open>typeof cpu.average === 'number'\<close>, with the average.\<close>

definition numeric_average :: "cpu_metric \<Rightarrow> jsnum option" where
  "numeric_average c = map_option read_number (average c)"

text \<open>\<^verbatim>\<open>monitoringData.period.days\<close>\<close>

definition period_days :: "monitoring_data \<Rightarrow> jsnum" where
  "period_days m = read_number (days (period m))"

text \<open>The callback of \<^verbatim>\<open>forEach\<close>, on \<^verbatim>\<open>(totalMessages, flowsWithData)\<close>.\<close>

definition flow_step :: "jsnum \<times> nat \<Rightarrow> flow_metric \<Rightarrow> jsnum \<times> nat" where
  "flow_step acc flow =
     (case numeric_count (flow_messageCount flow) of
        Some c \<Rightarrow> (js_add (fst acc) c, Suc (snd acc))
      | None \<Rightarrow> acc)"

text \<open>The running triple \<^verbatim>\<open>(estimatedDailyMessages, confidence, source)\<close>.\<close>

type_synonym msg_acc = "jsnum \<times> confidence \<times> string"

definition flow_tier :: "monitoring_data \<Rightarrow> msg_acc \<Rightarrow> msg_acc" where
  "flow_tier m acc =
     (case flowMetrics m of
        None \<Rightarrow> acc
      | Some flows \<Rightarrow>
          (case foldl flow_step (Fin 0, 0) flows of
             (totalMessages, flowsWithData) \<Rightarrow>
               (if flowsWithData > 0
                  then (js_div totalMessages (period_days m), High, ''Flow-level message metrics'')
                else acc)))"

definition application_tier :: "monitoring_data \<Rightarrow> msg_acc \<Rightarrow> msg_acc" where
  "application_tier m acc =
     (if js_is_zero (fst acc)
        then (case messageData m of
                None \<Rightarrow> acc
              | Some md \<Rightarrow>
                  (case numeric_count (messageCount md) of
                     Some c \<Rightarrow>
                       (js_div c (period_days m), Medium, ''Application-level message metrics'')
                   | None \<Rightarrow> acc))
      else acc)"

definition cpu_tier :: "monitoring_data \<Rightarrow> msg_acc \<Rightarrow> msg_acc" where
  "cpu_tier m acc =
     (if js_is_zero (fst acc)
        then (case resourceData m of
                None \<Rightarrow> acc
              | Some r \<Rightarrow>
                  (case cpu r of
                     None \<Rightarrow> acc
                   | Some c \<Rightarrow>
                       (case numeric_average c of
                          Some avgCpuPercent \<Rightarrow>
                            (js_mul avgCpuPercent (Fin 100), Low, ''CPU usage heuristic'')
                        | None \<Rightarrow> acc)))
      else acc)"

text \<open>The triple after the three tiers, before the final rounding.\<close>

definition message_tiers :: "monitoring_data \<Rightarrow> msg_acc" where
  "message_tiers m =
     cpu_tier m (application_tier m (flow_tier m (Fin 0, NoConfidence, ''No message data available'')))"

definition estimateMessageVolume :: "monitoring_data option \<Rightarrow> message_estimate" where
  "estimateMessageVolume monitoringData =
     (case monitoringData of
        None \<Rightarrow>
          \<lparr>estimatedDailyMessages = Fin 0, estimatedMonthlyMessages = Fin 0,
           msg_confidence = NoConfidence, msg_source = ''No monitoring data available''\<rparr>
      | Some m \<Rightarrow>
          (case message_tiers m of
             (daily, conf, src) \<Rightarrow>
               \<lparr>estimatedDailyMessages = js_round daily,
                estimatedMonthlyMessages = js_round (js_mul daily (Fin 30)),
                msg_confidence = conf, msg_source = src\<rparr>))"

section \<open>Business groups\<close>

text \<open>
  A node of the hierarchy that the platform returns. A node without
  \<^verbatim>\<open>subOrganizations\<close> has the empty list: the source skips the loop in both cases.
\<close>

datatype business_group =
  BusinessGroup (group_id: string) (group_name: string) (group_parentId: "string option")
    (subOrganizations: "business_group list")

record flat_group =
  flat_id :: string
  flat_name :: string
  flat_parentId :: "string option"

fun flattenBusinessGroups :: "business_group \<Rightarrow> flat_group list" where
  "flattenBusinessGroups (BusinessGroup gid gname gparent subs) =
     foldl (\<lambda>result subOrg. result @ flattenBusinessGroups subOrg)
       [\<lparr>flat_id = gid, flat_name = gname, flat_parentId = truthy_string gparent\<rparr>] subs"


section \<open>The inventory and its totals\<close>

text \<open>
  The run reads the platform through calls that are functions of the identifiers
  they are given: the environments of a business group, the applications of an
  environment, the details of an application, the path of its downloaded artifact
  (\<open>None\<close> when \<^verbatim>\<open>downloadApplicationJar\<close> returns \<^verbatim>\<open>null\<close> or no path), and its
  monitoring payload. Each of these calls catches its own failures.
\<close>

record environment =
  env_id :: string
  env_name :: string
  env_isProduction :: bool

record application =
  app_domain :: string

record platform =
  getEnvironments :: "string \<Rightarrow> environment list"
  getApplications :: "string \<Rightarrow> string \<Rightarrow> application list"
  getApplicationDetails :: "string \<Rightarrow> string \<Rightarrow> string \<Rightarrow> app_details option"
  downloadApplicationJar :: "string \<Rightarrow> string \<Rightarrow> app_details \<Rightarrow> string option"
  getApplicationMonitoringData :: "string \<Rightarrow> string \<Rightarrow> string \<Rightarrow> monitoring_data option"

record config =
  exportCsv :: bool
  downloadJars :: bool

text \<open>
  The inventory tree, with the fields that the totals read. The writes of the JSON
  files are left out: they do not change the inventory.
\<close>

record app_data =
  app :: application
  flowAnalysis :: flow_estimate
  messageAnalysis :: message_estimate

record environment_data =
  ed_id :: string
  ed_name :: string
  isProduction :: bool
  applications :: "app_data list"

record business_group_data =
  bg_id :: string
  bg_name :: string
  bg_parentId :: "string option"
  environments :: "environment_data list"

record summary =
  totalApplications :: nat
  totalEstimatedFlows :: jsnum
  totalEstimatedMonthlyMessages :: jsnum

record inventory =
  businessGroups :: "business_group_data list"
  summary :: summary

text \<open>\<^verbatim>\<open>// Update summary totals\<close>\<close>

definition update_summary :: "summary \<Rightarrow> app_data \<Rightarrow> summary" where
  "update_summary s a =
     \<lparr>totalApplications = Suc (totalApplications s),
      totalEstimatedFlows =
        js_add (totalEstimatedFlows s) (or_zero (estimatedFlows (flowAnalysis a))),
      totalEstimatedMonthlyMessages =
        js_add (totalEstimatedMonthlyMessages s)
          (or_zero (estimatedMonthlyMessages (messageAnalysis a)))\<rparr>"

text \<open>A \<^verbatim>\<open>for ... of\<close> loop whose body may throw: the first error ends it.\<close>

fun for_each :: "('s \<Rightarrow> 'a \<Rightarrow> error + 's) \<Rightarrow> 's \<Rightarrow> 'a list \<Rightarrow> error + 's" where
  "for_each f s [] = Inr s"
| "for_each f s (x # xs) = (case f s x of Inl e \<Rightarrow> Inl e | Inr s' \<Rightarrow> for_each f s' xs)"

text \<open>
  The body of the loop over the applications of one environment, on
  \<^verbatim>\<open>(environmentData.applications, inventory.summary)\<close>.
\<close>

definition process_application ::
  "config \<Rightarrow> platform \<Rightarrow> host \<Rightarrow> flat_group \<Rightarrow> environment \<Rightarrow>
   app_data list \<times> summary \<Rightarrow> application \<Rightarrow> error + app_data list \<times> summary" where
  "process_application cfg pf h grp env st a =
     (let appDetails = getApplicationDetails pf (flat_id grp) (env_id env) (app_domain a);
          jarPath = (case appDetails of
                       Some d \<Rightarrow>
                         (if downloadJars cfg
                            then downloadApplicationJar pf (flat_id grp) (env_id env) d
                          else None)
                     | None \<Rightarrow> None);
          monitoringData =
            getApplicationMonitoringData pf (flat_id grp) (env_id env) (app_domain a)
      in (case analyzeJarForFlows h (truthy_string jarPath) appDetails of
            Inl e \<Rightarrow> Inl e
          | Inr fa \<Rightarrow>
              (let appData = \<lparr>app = a, flowAnalysis = fa,
                              messageAnalysis = estimateMessageVolume monitoringData\<rparr>
               in Inr (fst st @ [appData], update_summary (snd st) appData))))"

text \<open>The body of the loop over the environments of one business group.\<close>

definition process_environment ::
  "config \<Rightarrow> platform \<Rightarrow> host \<Rightarrow> flat_group \<Rightarrow>
   environment_data list \<times> summary \<Rightarrow> environment \<Rightarrow> error + environment_data list \<times> summary" where
  "process_environment cfg pf h grp st env =
     (case for_each (process_application cfg pf h grp env) ([], snd st)
             (getApplications pf (flat_id grp) (env_id env)) of
        Inl e \<Rightarrow> Inl e
      | Inr (apps, s) \<Rightarrow>
          Inr (fst st @ [\<lparr>ed_id = env_id env, ed_name = env_name env,
                           isProduction = env_isProduction env, applications = apps\<rparr>], s))"

text \<open>The body of the loop over the business groups.\<close>

definition process_group ::
  "config \<Rightarrow> platform \<Rightarrow> host \<Rightarrow> inventory \<Rightarrow> flat_group \<Rightarrow> error + inventory" where
  "process_group cfg pf h invt grp =
     (case for_each (process_environment cfg pf h grp) ([], summary invt)
             (getEnvironments pf (flat_id grp)) of
        Inl e \<Rightarrow> Inl e
      | Inr (envs, s) \<Rightarrow>
          Inr \<lparr>businessGroups = businessGroups invt @
                  [\<lparr>bg_id = flat_id grp, bg_name = flat_name grp,
                    bg_parentId = flat_parentId grp, environments = envs\<rparr>],
               summary = s\<rparr>)"

text \<open>
  The inventory that \<^verbatim>\<open>analyzeBillableConsumption\<close> builds from the hierarchy that
  the platform returns; an error ends the run.
\<close>

definition analyzeBillableConsumption ::
  "config \<Rightarrow> platform \<Rightarrow> host \<Rightarrow> business_group \<Rightarrow> error + inventory" where
  "analyzeBillableConsumption cfg pf h hierarchy =
     for_each (process_group cfg pf h)
       \<lparr>businessGroups = [],
        summary = \<lparr>totalApplications = 0, totalEstimatedFlows = Fin 0,
                   totalEstimatedMonthlyMessages = Fin 0\<rparr>\<rparr>
       (flattenBusinessGroups hierarchy)"

text \<open>The nine totals of the organization summary report.\<close>

record org_totals =
  totalApps :: nat
  productionApps :: nat
  sandboxApps :: nat
  totalFlows :: jsnum
  productionFlows :: jsnum
  sandboxFlows :: jsnum
  totalMonthlyMessages :: jsnum
  productionMonthlyMessages :: jsnum
  sandboxMonthlyMessages :: jsnum

definition report_application :: "bool \<Rightarrow> org_totals \<Rightarrow> app_data \<Rightarrow> org_totals" where
  "report_application isProd t a =
     (let flows = or_zero (estimatedFlows (flowAnalysis a));
          messages = or_zero (estimatedMonthlyMessages (messageAnalysis a));
          t1 = t\<lparr>totalFlows := js_add (totalFlows t) flows,
                 totalMonthlyMessages := js_add (totalMonthlyMessages t) messages\<rparr>
      in if isProd
           then t1\<lparr>productionFlows := js_add (productionFlows t1) flows,
                   productionMonthlyMessages := js_add (productionMonthlyMessages t1) messages\<rparr>
         else t1\<lparr>sandboxFlows := js_add (sandboxFlows t1) flows,
                 sandboxMonthlyMessages := js_add (sandboxMonthlyMessages t1) messages\<rparr>)"

definition report_environment :: "org_totals \<Rightarrow> environment_data \<Rightarrow> org_totals" where
  "report_environment t env =
     (let apps = length (applications env);
          t1 = t\<lparr>totalApps := totalApps t + apps\<rparr>;
          t2 = (if isProduction env then t1\<lparr>productionApps := productionApps t1 + apps\<rparr>
                else t1\<lparr>sandboxApps := sandboxApps t1 + apps\<rparr>)
      in foldl (report_application (isProduction env)) t2 (applications env))"

definition report_group :: "org_totals \<Rightarrow> business_group_data \<Rightarrow> org_totals" where
  "report_group t grp = foldl report_environment t (environments grp)"

text \<open>
  \<^verbatim>\<open>generateOrganizationSummaryReport\<close>: nothing when the CSV export is off, else the
  totals that it writes.
\<close>

definition generateOrganizationSummaryReport :: "config \<Rightarrow> inventory \<Rightarrow> org_totals option" where
  "generateOrganizationSummaryReport cfg invt =
     (if \<not> exportCsv cfg then None
      else Some (foldl report_group
                   \<lparr>totalApps = 0, productionApps = 0, sandboxApps = 0,
                    totalFlows = Fin 0, productionFlows = Fin 0, sandboxFlows = Fin 0,
                    totalMonthlyMessages = Fin 0, productionMonthlyMessages = Fin 0,
                    sandboxMonthlyMessages = Fin 0\<rparr>
                   (businessGroups invt)))"

text \<open>
  The fresh recomputation of the summary, in the words of the specification: the leaf
  applications of the tree, and a fold of each counter over them.
\<close>

definition leaf_applications :: "inventory \<Rightarrow> app_data list" where
  "leaf_applications invt =
     concat (map (\<lambda>grp. concat (map applications (environments grp))) (businessGroups invt))"

definition recomputed_summary :: "inventory \<Rightarrow> summary" where
  "recomputed_summary invt =
     \<lparr>totalApplications = length (leaf_applications invt),
      totalEstimatedFlows =
        foldl (\<lambda>t a. js_add t (or_zero (estimatedFlows (flowAnalysis a)))) (Fin 0)
          (leaf_applications invt),
      totalEstimatedMonthlyMessages =
        foldl (\<lambda>t a. js_add t (or_zero (estimatedMonthlyMessages (messageAnalysis a)))) (Fin 0)
          (leaf_applications invt)\<rparr>"


section \<open>The estimators in the words of the specification\<close>

text \<open>
  The three tiers of the message volume estimator as the specification words them:
  the numeric message counts that the flows carry, the numeric application-level
  count, the numeric CPU average, and a fallback in which a tier is tried only while
  the daily estimate is still zero.
\<close>

definition flow_counts :: "monitoring_data \<Rightarrow> jsnum list" where
  "flow_counts m =
     (case flowMetrics m of
        None \<Rightarrow> []
      | Some flows \<Rightarrow> List.map_filter (\<lambda>flow. numeric_count (flow_messageCount flow)) flows)"

definition application_count :: "monitoring_data \<Rightarrow> jsnum option" where
  "application_count m =
     (case messageData m of None \<Rightarrow> None | Some md \<Rightarrow> numeric_count (messageCount md))"

definition cpu_average :: "monitoring_data \<Rightarrow> jsnum option" where
  "cpu_average m =
     (case resourceData m of
        None \<Rightarrow> None
      | Some r \<Rightarrow> (case cpu r of None \<Rightarrow> None | Some c \<Rightarrow> numeric_average c))"

definition three_tier_fallback :: "monitoring_data option \<Rightarrow> message_estimate" where
  "three_tier_fallback monitoringData =
     (case monitoringData of
        None \<Rightarrow>
          \<lparr>estimatedDailyMessages = Fin 0, estimatedMonthlyMessages = Fin 0,
           msg_confidence = NoConfidence, msg_source = ''No monitoring data available''\<rparr>
      | Some m \<Rightarrow>
          (let tier1 = (flow_counts m \<noteq> []);
               d1 = (if tier1 then js_div (foldl js_add (Fin 0) (flow_counts m)) (period_days m)
                     else Fin 0);
               tier2 = (if d1 = Fin 0 then application_count m else None);
               d2 = (case tier2 of Some c \<Rightarrow> js_div c (period_days m) | None \<Rightarrow> d1);
               tier3 = (if d2 = Fin 0 then cpu_average m else None);
               d3 = (case tier3 of Some a \<Rightarrow> js_mul a (Fin 100) | None \<Rightarrow> d2)
           in \<lparr>estimatedDailyMessages = js_round d3,
               estimatedMonthlyMessages = js_round (js_mul d3 (Fin 30)),
               msg_confidence =
                 (if tier3 \<noteq> None then Low else if tier2 \<noteq> None then Medium
                  else if tier1 then High else NoConfidence),
               msg_source =
                 (if tier3 \<noteq> None then ''CPU usage heuristic''
                  else if tier2 \<noteq> None then ''Application-level message metrics''
                  else if tier1 then ''Flow-level message metrics''
                  else ''No message data available'')\<rparr>))"


text \<open>
  The metadata estimate as the specification words it: a base read from the name, one
  integration bonus by first match, and the two worker bonuses, each added when it
  applies.
\<close>

definition fileName_base :: "string \<Rightarrow> rat" where
  "fileName_base nm =
     (if includes_str nm ''eapi'' \<or> includes_str nm ''experience-api'' then 5
      else if includes_str nm ''papi'' \<or> includes_str nm ''process-api'' then 7
      else if includes_str nm ''sapi'' \<or> includes_str nm ''system-api'' then 3
      else 2)"

definition domain_base :: "string \<Rightarrow> rat" where
  "domain_base nm =
     (if includes_str nm ''eapi'' \<or> includes_str nm ''experience'' then 5
      else if includes_str nm ''papi'' \<or> includes_str nm ''process'' then 7
      else if includes_str nm ''sapi'' \<or> includes_str nm ''system'' then 3
      else 2)"

definition integration_bonus :: "string \<Rightarrow> rat" where
  "integration_bonus nm =
     (if includes_str nm ''salesforce'' \<or> includes_str nm ''sfdc'' then 2
      else if includes_str nm ''onbase'' \<or> includes_str nm ''database'' then 1
      else if includes_str nm ''splunk'' then 1
      else 0)"

text \<open>A field that holds a string that is not empty.\<close>

fun present_text :: "name_field \<Rightarrow> string option" where
  "present_text (Text s) = (if s = [] then None else Some s)"
| "present_text _ = None"

definition name_estimate :: "app_details \<Rightarrow> rat" where
  "name_estimate d =
     (case present_text (fileName d) of
        Some f \<Rightarrow> fileName_base (toLowerCase f) + integration_bonus (toLowerCase f)
      | None \<Rightarrow>
          (case present_text (domain d) of
             Some dm \<Rightarrow> domain_base (toLowerCase dm) + integration_bonus (toLowerCase dm)
           | None \<Rightarrow> 2))"

text \<open>The two worker bonuses, \<open>None\<close> when the bonus does not apply.\<close>

definition worker_count_bonus :: "app_details \<Rightarrow> jsnum option" where
  "worker_count_bonus d =
     (case workers d of
        None \<Rightarrow> None
      | Some w \<Rightarrow>
          (case amount w of
             Some a \<Rightarrow>
               (if js_less (Fin 1) (round_double a)
                  then Some (math_min (Fin 3) (js_sub (round_double a) (Fin 1)))
                else None)
           | None \<Rightarrow> None))"

definition worker_size_bonus :: "app_details \<Rightarrow> jsnum option" where
  "worker_size_bonus d =
     (case workers d of
        None \<Rightarrow> None
      | Some w \<Rightarrow>
          (case type w of
             Some t \<Rightarrow>
               (case weight t of
                  Some wt \<Rightarrow>
                    (if js_less (Fin literal_0_1) (round_double wt)
                       then Some (math_min (Fin 3) (js_round (js_mul (round_double wt) (Fin 10))))
                     else None)
                | None \<Rightarrow> None)
           | None \<Rightarrow> None))"

definition add_bonus :: "jsnum option \<Rightarrow> jsnum \<Rightarrow> jsnum" where
  "add_bonus b x = (case b of None \<Rightarrow> x | Some v \<Rightarrow> js_add x v)"

definition metadata_estimate :: "app_details \<Rightarrow> jsnum" where
  "metadata_estimate d =
     add_bonus (worker_size_bonus d) (add_bonus (worker_count_bonus d) (Fin (name_estimate d)))"

text \<open>
  The name fields of the metadata are strings or absent, so that the estimator meets no
  value on which \<^verbatim>\<open>toLowerCase\<close> is not a function.
\<close>

fun names_are_text :: "app_details option \<Rightarrow> bool" where
  "names_are_text None = True"
| "names_are_text (Some d) = (fileName d \<noteq> NotText \<and> domain d \<noteq> NotText)"

text \<open>
  The structured extraction succeeds: the artifact's path is given and exists, its size
  can be read, and the extraction step finds at least one configuration file.
\<close>

definition structured_extraction :: "host \<Rightarrow> string option \<Rightarrow> bool" where
  "structured_extraction h jarPath =
     (case truthy_string jarPath of
        None \<Rightarrow> False
      | Some p \<Rightarrow>
          existsSync h p \<and>
          (case statSync h p of
             Inl e \<Rightarrow> False
           | Inr bytes \<Rightarrow>
               (case muleConfigs h p of Inl e \<Rightarrow> False | Inr files \<Rightarrow> files \<noteq> [])))"

text \<open>
  Every numeric count of the payload and its CPU average is a finite number that is not
  negative.
\<close>

definition nonneg_metrics :: "monitoring_data \<Rightarrow> bool" where
  "nonneg_metrics m =
     (list_all finite_nonneg (flow_counts m)
      \<and> (case application_count m of None \<Rightarrow> True | Some c \<Rightarrow> finite_nonneg c)
      \<and> (case cpu_average m of None \<Rightarrow> True | Some a \<Rightarrow> finite_nonneg a))"

text \<open>
  The payload counts exactly: the flow counts are whole numbers with a total below
  \<open>2 ^ 53\<close>, and the application-level count and the CPU average are finite, not
  negative and at most \<open>2 ^ 53\<close>.
\<close>

definition exact_total :: "jsnum list \<Rightarrow> rat" where
  "exact_total cs = sum_list (map (\<lambda>c. case c of Fin a \<Rightarrow> a | _ \<Rightarrow> 0) cs)"

fun at_most_2_53 :: "jsnum \<Rightarrow> bool" where
  "at_most_2_53 (Fin a) = (0 \<le> a \<and> a \<le> 2 ^ 53)"
| "at_most_2_53 _ = False"

definition counts_exactly :: "monitoring_data \<Rightarrow> bool" where
  "counts_exactly m =
     (list_all finite_nonneg_integer (flow_counts m)
      \<and> exact_total (flow_counts m) < 2 ^ 53
      \<and> (case application_count m of None \<Rightarrow> True | Some c \<Rightarrow> at_most_2_53 c)
      \<and> (case cpu_average m of None \<Rightarrow> True | Some a \<Rightarrow> at_most_2_53 a))"

text \<open>Every \<^verbatim>\<open>grep\<close> command of the extraction step printed a count.\<close>

definition prints_counts :: "(string \<times> string \<times> string) list \<Rightarrow> bool" where
  "prints_counts files =
     list_all (\<lambda>out. case out of (a, b, c) \<Rightarrow>
                 finite_nonneg (parseInt (trim a)) \<and> finite_nonneg (parseInt (trim b))
                 \<and> finite_nonneg (parseInt (trim c))) files"

section \<open>Example inputs\<close>

text \<open>One flow with 45 messages over a period of 30 days.\<close>

definition flows_45_over_30_days :: monitoring_data where
  "flows_45_over_30_days =
     \<lparr>messageData = None, resourceData = None,
      flowMetrics = Some [\<lparr>flow_messageCount = Some \<lparr>count = Some (Fin 45)\<rparr>\<rparr>],
      period = \<lparr>days = Fin 30\<rparr>\<rparr>"

text \<open>Two flows with 1000 and 2000 messages, and one without a count, over 30 days.\<close>

definition flows_3000_over_30_days :: monitoring_data where
  "flows_3000_over_30_days =
     \<lparr>messageData = None, resourceData = None,
      flowMetrics = Some [\<lparr>flow_messageCount = Some \<lparr>count = Some (Fin 1000)\<rparr>\<rparr>,
                          \<lparr>flow_messageCount = None\<rparr>,
                          \<lparr>flow_messageCount = Some \<lparr>count = Some (Fin 2000)\<rparr>\<rparr>],
      period = \<lparr>days = Fin 30\<rparr>\<rparr>"

text \<open>A payload in which all three metrics are absent.\<close>

definition no_metrics :: monitoring_data where
  "no_metrics =
     \<lparr>messageData = None, resourceData = Some \<lparr>cpu = None\<rparr>, flowMetrics = Some [],
      period = \<lparr>days = Fin 30\<rparr>\<rparr>"

text \<open>One flow with the count -90 over a period of 30 days.\<close>

definition negative_count_over_30_days :: monitoring_data where
  "negative_count_over_30_days =
     \<lparr>messageData = None, resourceData = None,
      flowMetrics = Some [\<lparr>flow_messageCount = Some \<lparr>count = Some (Fin (- 90))\<rparr>\<rparr>],
      period = \<lparr>days = Fin 30\<rparr>\<rparr>"

text \<open>An application-level count of 3000 over a period of no days.\<close>

definition count_3000_over_0_days :: monitoring_data where
  "count_3000_over_0_days =
     \<lparr>messageData = Some \<lparr>messageCount = Some \<lparr>count = Some (Fin 3000)\<rparr>\<rparr>,
      resourceData = Some \<lparr>cpu = Some \<lparr>average = Some (Fin 12)\<rparr>\<rparr>, flowMetrics = None,
      period = \<lparr>days = Fin 0\<rparr>\<rparr>"

text \<open>An application-level count of 3000 over 30 days, beside a CPU average.\<close>

definition count_3000_over_30_days :: monitoring_data where
  "count_3000_over_30_days =
     \<lparr>messageData = Some \<lparr>messageCount = Some \<lparr>count = Some (Fin 3000)\<rparr>\<rparr>,
      resourceData = Some \<lparr>cpu = Some \<lparr>average = Some (Fin 12)\<rparr>\<rparr>, flowMetrics = Some [],
      period = \<lparr>days = Fin 30\<rparr>\<rparr>"

text \<open>A root with two children that carry no parent identifier, and with two that do.\<close>

definition root_with_bare_children :: business_group where
  "root_with_bare_children =
     BusinessGroup ''root'' ''Root'' None
       [BusinessGroup ''a'' ''A'' None [], BusinessGroup ''b'' ''B'' None []]"

definition root_with_two_children :: business_group where
  "root_with_two_children =
     BusinessGroup ''root'' ''Root'' None
       [BusinessGroup ''a'' ''A'' (Some ''root'') [], BusinessGroup ''b'' ''B'' (Some ''root'') []]"

text \<open>The largest power of two among the doubles, about \<open>8.99e307\<close>.\<close>

definition two_pow_1023 :: rat where
  "two_pow_1023 = 2 ^ 1023"

text \<open>Two flows with the count \<open>2 ^ 1023\<close> each, over a period of one day.\<close>

definition huge_counts_over_1_day :: monitoring_data where
  "huge_counts_over_1_day =
     \<lparr>messageData = None, resourceData = None,
      flowMetrics = Some [\<lparr>flow_messageCount = Some \<lparr>count = Some (Fin two_pow_1023)\<rparr>\<rparr>,
                          \<lparr>flow_messageCount = Some \<lparr>count = Some (Fin two_pow_1023)\<rparr>\<rparr>],
      period = \<lparr>days = Fin 1\<rparr>\<rparr>"

text \<open>Metadata whose file name is a number.\<close>

definition numeric_fileName :: app_details where
  "numeric_fileName = \<lparr>fileName = NotText, domain = Text ''orders'', workers = None\<rparr>"

text \<open>
  A platform with one production environment under the root group and two applications
  in every environment, no artifact to download, and flow metrics for one application.
\<close>

definition example_platform :: platform where
  "example_platform =
     \<lparr>getEnvironments =
        (\<lambda>org. if org = ''root''
               then [\<lparr>env_id = ''e1'', env_name = ''Production'', env_isProduction = True\<rparr>]
               else []),
      getApplications =
        (\<lambda>org env. [\<lparr>app_domain = ''order-papi-database''\<rparr>, \<lparr>app_domain = ''customer''\<rparr>]),
      getApplicationDetails =
        (\<lambda>org env dom.
           if dom = ''customer''
             then Some \<lparr>fileName = Text ''customer-eapi-salesforce-v1.jar'',
                        domain = Text dom, workers = None\<rparr>
           else Some \<lparr>fileName = Absent, domain = Text dom,
                      workers = Some \<lparr>amount = Some 1, type = Some \<lparr>weight = Some 0\<rparr>\<rparr>\<rparr>),
      downloadApplicationJar = (\<lambda>org env d. None),
      getApplicationMonitoringData =
        (\<lambda>org env dom. if dom = ''customer'' then Some flows_3000_over_30_days else None)\<rparr>"

text \<open>
  A machine on which every path behaves alike: whether it exists, what \<^verbatim>\<open>statSync\<close>
  gives, and what the extraction step gives.
\<close>

definition uniform_host ::
  "bool \<Rightarrow> error + nat \<Rightarrow> error + (string \<times> string \<times> string) list \<Rightarrow> host" where
  "uniform_host ex st cf =
     \<lparr>existsSync = (\<lambda>p. ex), statSync = (\<lambda>p. st), muleConfigs = (\<lambda>p. cf)\<rparr>"


section \<open>Rounding to a binary format\<close>

lemma round_half_even_of_int: "round_half_even (of_int k) = k"
  by (simp add: round_half_even_def)

lemma round_half_even_ge: "of_int N \<le> q \<Longrightarrow> N \<le> round_half_even q"
proof -
  assume "of_int N \<le> q"
  then have "N \<le> \<lfloor>q\<rfloor>"
    by (simp add: le_floor_iff)
  then show ?thesis
    by (simp add: round_half_even_def Let_def)
qed

lemma round_half_even_le: "q \<le> of_int N \<Longrightarrow> round_half_even q \<le> N"
proof (cases "q = of_int N")
  case True
  then show ?thesis
    by (simp add: round_half_even_of_int)
next
  case False
  assume "q \<le> of_int N"
  with False have "q < of_int N"
    by simp
  then have "\<lfloor>q\<rfloor> < N"
    by (simp add: floor_less_iff)
  then show ?thesis
    by (simp add: round_half_even_def Let_def)
qed

lemma ulp_shift_le: "\<bar>x\<bar> * 2 ^ emin < 2 ^ Suc t \<Longrightarrow> ulp_shift emin x \<le> t"
proof -
  assume a: "\<bar>x\<bar> * 2 ^ emin < 2 ^ Suc t"
  let ?m = "\<lfloor>\<bar>x\<bar> * 2 ^ emin\<rfloor>"
  have "\<bar>x\<bar> * 2 ^ emin < of_int (2 ^ Suc t)"
    using a by simp
  then have "?m < 2 ^ Suc t"
    by (simp only: floor_less_iff)
  then have "?m < 2 ^ nat (int (Suc t))"
    by (simp only: nat_int)
  then have "bitlen ?m \<le> int (Suc t)"
    using bitlen_le_iff_power [of ?m "int (Suc t)"] by linarith
  then show ?thesis
    by (simp add: ulp_shift_def)
qed

text \<open>A number of the format is its own rounding.\<close>

lemma round_binary_exact:
  assumes K: "x * 2 ^ (emin + p) = of_int K"
    and dvd: "2 ^ t dvd K"
    and small: "\<bar>x\<bar> * 2 ^ emin < 2 ^ Suc t"
    and fin: "\<bar>x\<bar> < 2 ^ emax"
  shows "round_binary p emin emax x = Fin x"
proof -
  let ?s = "ulp_shift emin x"
  have s: "?s \<le> t"
    using small by (rule ulp_shift_le)
  then have "(2::int) ^ ?s dvd 2 ^ t"
    by (simp add: le_imp_power_dvd)
  then have "2 ^ ?s dvd K"
    using dvd by (rule dvd_trans)
  then obtain M where M: "K = 2 ^ ?s * M"
    by (auto simp: dvd_def)
  have q: "x * 2 ^ (emin + p) / 2 ^ ?s = of_int M"
    using K M by simp
  have y: "(of_int (M * 2 ^ ?s) :: rat) / 2 ^ (emin + p) = x"
  proof -
    have "(of_int (M * 2 ^ ?s) :: rat) = of_int K"
      using M by (simp add: mult.commute)
    also have "\<dots> = x * 2 ^ (emin + p)"
      using K by simp
    finally show ?thesis
      by simp
  qed
  show ?thesis
    unfolding round_binary_def Let_def q round_half_even_of_int y using fin by simp
qed

lemma round_binary_scaled_int:
  assumes k: "\<bar>k\<bar> < 2 ^ Suc p" and j: "j \<le> emin + p" and e: "Suc p \<le> emax + j"
  shows "round_binary p emin emax (of_int k / 2 ^ j) = Fin (of_int k / 2 ^ j)"
proof (rule round_binary_exact [where K = "k * 2 ^ (emin + p - j)" and t = "emin + p - j"])
  have split: "(2::rat) ^ (emin + p) = 2 ^ (emin + p - j) * 2 ^ j"
    using j by (simp add: power_add [symmetric])
  show "of_int k / 2 ^ j * 2 ^ (emin + p) = (of_int (k * 2 ^ (emin + p - j)) :: rat)"
    by (simp add: split)
  show "2 ^ (emin + p - j) dvd k * 2 ^ (emin + p - j)"
    by simp
  have kr: "(of_int \<bar>k\<bar> :: rat) < 2 ^ Suc p"
    using k by (metis of_int_less_iff of_int_numeral of_int_power)
  have "\<bar>of_int k / 2 ^ j :: rat\<bar> * 2 ^ emin * 2 ^ j < 2 ^ Suc p * 2 ^ emin"
    using kr by simp
  also have "\<dots> = (2::rat) ^ Suc (emin + p - j) * 2 ^ j"
    using j by (simp add: power_add [symmetric])
  finally show "\<bar>of_int k / 2 ^ j :: rat\<bar> * 2 ^ emin < 2 ^ Suc (emin + p - j)"
    by (simp add: divide_less_eq)
  have "\<bar>of_int k / 2 ^ j :: rat\<bar> * 2 ^ j < 2 ^ Suc p"
    using kr by simp
  also have "(2::rat) ^ Suc p \<le> 2 ^ (emax + j)"
    using e by (intro power_increasing) simp_all
  also have "\<dots> = (2::rat) ^ emax * 2 ^ j"
    by (simp add: power_add)
  finally show "\<bar>of_int k / 2 ^ j :: rat\<bar> < 2 ^ emax"
    by (simp add: divide_less_eq)
qed

lemma round_binary_int_shifted:
  assumes k: "\<bar>k\<bar> < 2 ^ Suc p" and fin: "\<bar>k\<bar> * 2 ^ e < 2 ^ emax"
  shows "round_binary p emin emax (of_int k * 2 ^ e) = Fin (of_int k * 2 ^ e)"
proof (rule round_binary_exact [where K = "k * 2 ^ (e + emin + p)" and t = "e + emin + p"])
  show "of_int k * 2 ^ e * 2 ^ (emin + p) = (of_int (k * 2 ^ (e + emin + p)) :: rat)"
    by (simp add: power_add)
  show "2 ^ (e + emin + p) dvd k * 2 ^ (e + emin + p)"
    by simp
  have kr: "(of_int \<bar>k\<bar> :: rat) < 2 ^ Suc p"
    using k by (metis of_int_less_iff of_int_numeral of_int_power)
  then have "(of_int \<bar>k\<bar> :: rat) * (2 ^ e * 2 ^ emin) < 2 ^ Suc p * (2 ^ e * 2 ^ emin)"
    by (intro mult_strict_right_mono) simp_all
  then show "\<bar>of_int k * 2 ^ e :: rat\<bar> * 2 ^ emin < 2 ^ Suc (e + emin + p)"
    by (simp add: power_add abs_mult ac_simps)
  have "(of_int (\<bar>k\<bar> * 2 ^ e) :: rat) < of_int (2 ^ emax)"
    using fin by (simp only: of_int_less_iff)
  then show "\<bar>of_int k * 2 ^ e :: rat\<bar> < 2 ^ emax"
    by (simp add: abs_mult)
qed

text \<open>Rounding does not pass a power of two of the format.\<close>

lemma round_binary_bounded:
  assumes x0: "0 \<le> x" and xK: "x \<le> 2 ^ K" and K: "K < emax"
  shows "\<exists>y. round_binary p emin emax x = Fin y \<and> 0 \<le> y \<and> y \<le> 2 ^ K"
proof -
  let ?s = "ulp_shift emin x"
  let ?n = "round_half_even (x * 2 ^ (emin + p) / 2 ^ ?s)"
  let ?y = "(of_int (?n * 2 ^ ?s) :: rat) / 2 ^ (emin + p)"
  have "\<bar>x\<bar> * 2 ^ emin \<le> 2 ^ K * 2 ^ emin"
    using x0 xK by simp
  also have "\<dots> < (2::rat) ^ Suc (K + emin)"
    by (simp add: power_add)
  finally have s: "?s \<le> K + emin"
    by (rule ulp_shift_le)
  let ?N = "(2::int) ^ (K + emin + p - ?s)"
  have split: "(2::rat) ^ K * 2 ^ (emin + p) = 2 ^ (K + emin + p - ?s) * 2 ^ ?s"
    using s by (simp add: power_add [symmetric])
  have "x * 2 ^ (emin + p) \<le> 2 ^ K * 2 ^ (emin + p)"
    using xK by simp
  then have "x * 2 ^ (emin + p) / 2 ^ ?s \<le> of_int ?N"
    by (simp add: split divide_le_eq)
  then have nN: "?n \<le> ?N"
    by (rule round_half_even_le)
  have "of_int 0 \<le> x * 2 ^ (emin + p) / 2 ^ ?s"
    using x0 by simp
  then have n0: "0 \<le> ?n"
    by (rule round_half_even_ge)
  have y0: "0 \<le> ?y"
    using n0 by simp
  have "(of_int (?n * 2 ^ ?s) :: rat) \<le> of_int (?N * 2 ^ ?s)"
    using nN by (simp only: of_int_le_iff) simp
  also have "\<dots> = (2::rat) ^ K * 2 ^ (emin + p)"
    by (simp add: split)
  finally have yK: "?y \<le> 2 ^ K"
    by (simp add: divide_le_eq)
  have "(2::rat) ^ K < 2 ^ emax"
    using K by (intro power_strict_increasing) simp_all
  then have "\<not> 2 ^ emax \<le> \<bar>?y\<bar>"
    using y0 yK by linarith
  then have "round_binary p emin emax x = Fin ?y"
    by (simp add: round_binary_def Let_def)
  then show ?thesis
    using y0 yK by blast
qed

lemma round_binary_nonneg:
  assumes x0: "0 \<le> x"
  shows "round_binary p emin emax x = PInf \<or> (\<exists>y. round_binary p emin emax x = Fin y \<and> 0 \<le> y)"
proof -
  have "of_int 0 \<le> x * 2 ^ (emin + p) / 2 ^ ulp_shift emin x"
    using x0 by simp
  then have "0 \<le> round_half_even (x * 2 ^ (emin + p) / 2 ^ ulp_shift emin x)"
    by (rule round_half_even_ge)
  then show ?thesis
    using x0 by (simp add: round_binary_def Let_def)
qed

lemma ulp_shift_power_le:
  assumes "0 < x" and "1 \<le> x * 2 ^ emin"
  shows "2 ^ ulp_shift emin x \<le> x * 2 ^ emin"
proof -
  let ?m = "\<lfloor>\<bar>x\<bar> * 2 ^ emin\<rfloor>"
  have m: "0 < ?m"
    using assms by (simp add: abs_of_pos)
  have "(2::int) ^ nat (bitlen ?m - 1) \<le> ?m"
    using bitlen_bounds [OF m] by simp
  then have "(of_int (2 ^ ulp_shift emin x) :: rat) \<le> of_int ?m"
    unfolding ulp_shift_def by (simp only: of_int_le_iff)
  also have "\<dots> \<le> \<bar>x\<bar> * 2 ^ emin"
    by (rule of_int_floor_le)
  finally show ?thesis
    using assms(1) by (simp add: abs_of_pos)
qed

text \<open>A number at or beyond the range becomes Infinity.\<close>

lemma round_binary_overflow:
  assumes big: "2 ^ emax \<le> x"
  shows "round_binary p emin emax x = PInf"
proof -
  let ?s = "ulp_shift emin x"
  let ?E = "emax + emin + p"
  let ?n = "round_half_even (x * 2 ^ (emin + p) / 2 ^ ?s)"
  have x0: "0 < x"
    using big by (rule less_le_trans [rotated]) simp
  have x1: "1 \<le> x * 2 ^ emin"
  proof -
    have "(1::rat) \<le> 2 ^ emax * 2 ^ emin"
      by (simp add: power_add [symmetric])
    also have "\<dots> \<le> x * 2 ^ emin"
      using big by simp
    finally show ?thesis .
  qed
  have xE: "(2::rat) ^ ?E \<le> x * 2 ^ (emin + p)"
  proof -
    have "(2::rat) ^ ?E = 2 ^ emax * 2 ^ (emin + p)"
      by (simp add: power_add)
    also have "\<dots> \<le> x * 2 ^ (emin + p)"
      using big by simp
    finally show ?thesis .
  qed
  have "(2::rat) ^ ?E \<le> of_int (?n * 2 ^ ?s)"
  proof (cases "?s \<le> ?E")
    case True
    let ?N = "(2::int) ^ (?E - ?s)"
    have split: "(2::rat) ^ ?E = 2 ^ (?E - ?s) * 2 ^ ?s"
      using True by (simp add: power_add [symmetric])
    have "of_int ?N \<le> x * 2 ^ (emin + p) / 2 ^ ?s"
      using xE by (simp add: split le_divide_eq)
    then have "?N \<le> ?n"
      by (rule round_half_even_ge)
    then have "(of_int (?N * 2 ^ ?s) :: rat) \<le> of_int (?n * 2 ^ ?s)"
      by (simp only: of_int_le_iff) simp
    then show ?thesis
      by (simp add: split)
  next
    case False
    have "(2::rat) ^ ?s \<le> x * 2 ^ emin"
      using x0 x1 by (rule ulp_shift_power_le)
    also have "\<dots> \<le> x * 2 ^ (emin + p)"
      using x0 by (simp add: power_add)
    finally have "of_int 1 \<le> x * 2 ^ (emin + p) / 2 ^ ?s"
      by (simp add: le_divide_eq)
    then have "1 \<le> ?n"
      by (rule round_half_even_ge)
    then have "(1::int) * 2 ^ ?s \<le> ?n * 2 ^ ?s"
      by (intro mult_right_mono) simp_all
    then have "(of_int (1 * 2 ^ ?s) :: rat) \<le> of_int (?n * 2 ^ ?s)"
      by (simp only: of_int_le_iff)
    then have a: "(2::rat) ^ ?s \<le> of_int (?n * 2 ^ ?s)"
      by simp
    have b: "(2::rat) ^ ?E \<le> 2 ^ ?s"
      using False by (intro power_increasing) simp_all
    show ?thesis
      using b a by (rule order_trans)
  qed
  also have "(of_int (?n * 2 ^ ?s) :: rat) = of_int (?n * 2 ^ ?s) / 2 ^ (emin + p) * 2 ^ (emin + p)"
    by simp
  finally have "(2::rat) ^ emax * 2 ^ (emin + p)
                  \<le> of_int (?n * 2 ^ ?s) / 2 ^ (emin + p) * 2 ^ (emin + p)"
    by (simp add: power_add)
  then have "(2::rat) ^ emax \<le> of_int (?n * 2 ^ ?s) / 2 ^ (emin + p)"
    by (simp only: mult_le_cancel_right) simp
  then have "(2::rat) ^ emax \<le> \<bar>of_int (?n * 2 ^ ?s) / 2 ^ (emin + p)\<bar>"
    by linarith
  then show ?thesis
    using x0 by (simp add: round_binary_def Let_def)
qed

section \<open>Doubles\<close>

lemma round_double_scaled_int:
  "\<bar>k\<bar> < 2 ^ 53 \<Longrightarrow> j \<le> 1074 \<Longrightarrow> round_double (of_int k / 2 ^ j) = Fin (of_int k / 2 ^ j)"
  unfolding round_double_def
  by (rule round_binary_scaled_int) simp_all

lemma round_double_of_int: "\<bar>k\<bar> < 2 ^ 53 \<Longrightarrow> round_double (of_int k) = Fin (of_int k)"
  using round_double_scaled_int [of k 0] by simp

lemma round_double_0 [simp]: "round_double 0 = Fin 0"
  using round_double_of_int [of 0] by simp

lemma round_double_1 [simp]: "round_double 1 = Fin 1"
  using round_double_of_int [of 1] by simp

lemma round_double_numeral [simp]:
  "(numeral n :: int) < 9007199254740992 \<Longrightarrow> round_double (numeral n) = Fin (numeral n)"
  using round_double_of_int [of "numeral n"] by simp

lemma round_double_neg_numeral [simp]:
  "(numeral n :: int) < 9007199254740992 \<Longrightarrow> round_double (- numeral n) = Fin (- numeral n)"
  using round_double_of_int [of "- numeral n"] by simp

lemma round_double_half [simp]:
  "(numeral n :: int) < 9007199254740992 \<Longrightarrow> round_double (numeral n / 2) = Fin (numeral n / 2)"
  using round_double_scaled_int [of "numeral n" 1] by simp

lemma round_double_bounded:
  "0 \<le> x \<Longrightarrow> x \<le> 2 ^ K \<Longrightarrow> K < 1024 \<Longrightarrow> \<exists>y. round_double x = Fin y \<and> 0 \<le> y \<and> y \<le> 2 ^ K"
  unfolding round_double_def by (rule round_binary_bounded)

lemma round_double_nonneg: "0 \<le> x \<Longrightarrow> nonneg_or_infinity (round_double x)"
  using round_binary_nonneg [of x 52 1022 1024] by (auto simp: round_double_def)

lemma round_double_overflow: "2 ^ 1024 \<le> x \<Longrightarrow> round_double x = PInf"
  unfolding round_double_def by (rule round_binary_overflow)

lemma two_pow_1023_positive: "0 < two_pow_1023"
  unfolding two_pow_1023_def by (rule zero_less_power) simp

lemma round_double_two_pow_1023 [simp]: "round_double two_pow_1023 = Fin two_pow_1023"
proof -
  have "(1::int) * 2 ^ 1023 < 2 ^ 1024"
    by (simp only: mult_1) (rule power_strict_increasing, simp_all)
  then have "round_binary 52 1022 1024 (of_int 1 * 2 ^ 1023) = Fin (of_int 1 * 2 ^ 1023)"
    by (intro round_binary_int_shifted) simp_all
  then show ?thesis
    by (simp only: round_double_def two_pow_1023_def of_int_1 mult_1)
qed

lemma round_double_twice_two_pow_1023 [simp]:
  "round_double (two_pow_1023 + two_pow_1023) = PInf"
proof -
  have "two_pow_1023 + two_pow_1023 = 2 ^ Suc 1023"
    by (simp only: two_pow_1023_def power_Suc mult_2)
  then have "(2::rat) ^ 1024 \<le> two_pow_1023 + two_pow_1023"
    by (simp only: Suc_eq_plus1) simp
  then show ?thesis
    by (rule round_double_overflow)
qed

lemma round_double_double_two_pow_1023 [simp]: "round_double (2 * two_pow_1023) = PInf"
  using round_double_twice_two_pow_1023 by (simp only: mult_2)

lemma nonneg_or_infinity_read:
  "finite_nonneg x \<Longrightarrow> nonneg_or_infinity (read_number x)"
  by (cases x) (simp_all add: round_double_nonneg)

lemma nonneg_or_infinity_add:
  "nonneg_or_infinity x \<Longrightarrow> nonneg_or_infinity y \<Longrightarrow> nonneg_or_infinity (js_add x y)"
  by (cases x; cases y) (simp_all add: round_double_nonneg)

lemma nonneg_or_infinity_mul:
  "nonneg_or_infinity x \<Longrightarrow> 0 < c \<Longrightarrow> nonneg_or_infinity (js_mul x (Fin c))"
  by (cases x) (simp_all add: round_double_nonneg inf_of_sign_def)

lemma nonneg_or_infinity_div:
  "nonneg_or_infinity x \<Longrightarrow> 0 < d \<Longrightarrow> nonneg_or_infinity (js_div x (Fin d))"
  by (cases x) (simp_all add: round_double_nonneg inf_of_sign_def)

section \<open>Rounding to an integer\<close>

lemma math_round_of_int [simp]: "math_round (of_int n) = of_int n"
  unfolding math_round_def by (metis round_def round_of_int)

lemma math_round_0 [simp]: "math_round 0 = 0"
  using math_round_of_int [of 0] by simp

lemma math_round_numeral [simp]: "math_round (numeral n) = numeral n"
  using math_round_of_int [of "numeral n"] by simp

lemma math_round_neg_numeral [simp]: "math_round (- numeral n) = - numeral n"
  using math_round_of_int [of "- numeral n"] by simp

lemma math_round_numeral_mult_of_int [simp]:
  "math_round (numeral n * of_int k) = numeral n * of_int k"
  using math_round_of_int [of "numeral n * k"] by simp

lemma math_round_numeral_div [simp]:
  "math_round (numeral a / numeral b) = of_int ((2 * numeral a + numeral b) div (2 * numeral b))"
proof -
  have "(numeral a / numeral b + 1 / 2 :: rat) =
          of_int (2 * numeral a + numeral b) / of_int (2 * numeral b)"
    by (simp add: field_simps)
  then show ?thesis
    unfolding math_round_def by (simp only: floor_divide_of_int_eq)
qed

lemma math_round_nonneg: "0 \<le> x \<Longrightarrow> 0 \<le> math_round x"
  unfolding math_round_def by simp

lemma js_round_nonneg:
  "nonneg_or_infinity x \<Longrightarrow> nonneg_integer_or_infinity (js_round x)"
  by (cases x) (simp_all add: math_round_nonneg, simp add: math_round_def)

lemma js_round_finite_nonneg:
  "finite_nonneg x \<Longrightarrow> finite_nonneg_integer (js_round x)"
  by (cases x) (simp_all add: math_round_nonneg, simp add: math_round_def)

section \<open>The message volume estimator\<close>

lemma foldl_flow_step:
  "foldl flow_step (t, n) flows =
     (foldl js_add t (List.map_filter (\<lambda>flow. numeric_count (flow_messageCount flow)) flows),
      n + length (List.map_filter (\<lambda>flow. numeric_count (flow_messageCount flow)) flows))"
  by (induction flows arbitrary: t n)
    (auto simp: flow_step_def split: option.splits)

lemma flow_tier_eq:
  "flow_tier m acc =
     (if flow_counts m \<noteq> []
        then (js_div (foldl js_add (Fin 0) (flow_counts m)) (period_days m), High,
              ''Flow-level message metrics'')
      else acc)"
  by (cases "flowMetrics m") (auto simp: flow_tier_def flow_counts_def foldl_flow_step)

lemma application_tier_eq:
  "application_tier m acc =
     (case (if fst acc = Fin 0 then application_count m else None) of
        Some c \<Rightarrow> (js_div c (period_days m), Medium, ''Application-level message metrics'')
      | None \<Rightarrow> acc)"
  by (simp add: application_tier_def application_count_def js_is_zero_def split: option.splits)

lemma cpu_tier_eq:
  "cpu_tier m acc =
     (case (if fst acc = Fin 0 then cpu_average m else None) of
        Some a \<Rightarrow> (js_mul a (Fin 100), Low, ''CPU usage heuristic'')
      | None \<Rightarrow> acc)"
  by (simp add: cpu_tier_def cpu_average_def js_is_zero_def split: option.splits)

lemma estimateMessageVolume_Some:
  "estimateMessageVolume (Some m) =
     \<lparr>estimatedDailyMessages = js_round (fst (message_tiers m)),
      estimatedMonthlyMessages = js_round (js_mul (fst (message_tiers m)) (Fin 30)),
      msg_confidence = fst (snd (message_tiers m)), msg_source = snd (snd (message_tiers m))\<rparr>"
  by (simp add: estimateMessageVolume_def split: prod.splits)

lemmas message_eval =
  message_tiers_def flow_tier_eq application_tier_eq cpu_tier_eq flow_counts_def
  application_count_def cpu_average_def numeric_count_def numeric_average_def period_days_def

text \<open>
  Claim C1, as it is stated, fails: one flow with 45 messages over 30 days has the
  unrounded daily estimate 1.5, so the returned daily value is 2 and the returned monthly
  value is 45, not \<open>round (2 * 30) = 60\<close>.
\<close>

theorem monthly_not_from_returned_daily:
  "estimatedMonthlyMessages (estimateMessageVolume (Some flows_45_over_30_days))
   \<noteq> js_round (js_mul (estimatedDailyMessages (estimateMessageVolume (Some flows_45_over_30_days)))
         (Fin 30))"
  by (simp add: estimateMessageVolume_Some message_eval flows_45_over_30_days_def)

text \<open>
  Claim C1, amended: the returned monthly value is the rounding of the product of 30 and
  the unrounded daily estimate that the three tiers leave, and the returned daily value
  is the rounding of that same estimate. When the unrounded estimate is a whole number
  whose product with 30 stays below \<open>2 ^ 53\<close>, and when there is no monitoring data, the
  monthly value is 30 times the returned daily value, as the claim has it.
\<close>

theorem monthly_from_unrounded_daily:
  "estimatedDailyMessages (estimateMessageVolume (Some m)) = js_round (fst (message_tiers m))
   \<and> estimatedMonthlyMessages (estimateMessageVolume (Some m))
       = js_round (js_mul (fst (message_tiers m)) (Fin 30))
   \<and> (\<forall>k. fst (message_tiers m) = Fin (of_int k) \<and> \<bar>k\<bar> * 30 < 2 ^ 53 \<longrightarrow>
         estimatedDailyMessages (estimateMessageVolume (Some m)) = Fin (of_int k)
         \<and> estimatedMonthlyMessages (estimateMessageVolume (Some m)) = Fin (of_int (30 * k))
         \<and> estimatedMonthlyMessages (estimateMessageVolume (Some m))
             = js_round (js_mul (estimatedDailyMessages (estimateMessageVolume (Some m)))
                 (Fin 30)))
   \<and> estimatedMonthlyMessages (estimateMessageVolume None)
       = js_round (js_mul (estimatedDailyMessages (estimateMessageVolume None)) (Fin 30))"
proof -
  have whole: "js_mul (Fin (of_int k)) (Fin 30) = Fin (30 * of_int k)"
    if "\<bar>k\<bar> * 30 < 2 ^ 53" for k :: int
  proof -
    have "\<bar>30 * k\<bar> < 2 ^ 53"
      using that by (simp add: abs_mult)
    then have "round_double (of_int (30 * k)) = Fin (of_int (30 * k))"
      by (rule round_double_of_int)
    then show ?thesis
      by (simp add: mult.commute)
  qed
  have none: "estimatedMonthlyMessages (estimateMessageVolume None)
       = js_round (js_mul (estimatedDailyMessages (estimateMessageVolume None)) (Fin 30))"
    by (simp add: estimateMessageVolume_def)
  show ?thesis
    using none whole by (simp add: estimateMessageVolume_Some)
qed

theorem monthly_from_unrounded_daily_witness:
  "fst (message_tiers flows_3000_over_30_days) = Fin (of_int 100)
   \<and> \<bar>100 :: int\<bar> * 30 < 2 ^ 53
   \<and> estimatedDailyMessages (estimateMessageVolume (Some flows_3000_over_30_days)) = Fin 100
   \<and> estimatedMonthlyMessages (estimateMessageVolume (Some flows_3000_over_30_days)) = Fin 3000
   \<and> estimatedMonthlyMessages (estimateMessageVolume (Some flows_3000_over_30_days))
       = js_round (js_mul (estimatedDailyMessages
           (estimateMessageVolume (Some flows_3000_over_30_days))) (Fin 30))"
proof -
  have d: "fst (message_tiers flows_3000_over_30_days) = Fin (of_int 100)"
    by (simp add: message_eval flows_3000_over_30_days_def)
  have r: "\<bar>100 :: int\<bar> * 30 < 2 ^ 53"
    by simp
  show ?thesis
    using d r monthly_from_unrounded_daily [of flows_3000_over_30_days] by simp
qed

text \<open>
  Claim C2: the estimator is the three-tier fallback of the specification. With
  flow-level counts the daily estimate is their total over the days of the period, with
  confidence high; the application-level count is used only while the estimate is zero,
  with confidence medium; the CPU average only while it is still zero, with confidence
  low; and with no payload, or with no tier firing, the result is zero with confidence
  none.
\<close>

theorem estimateMessageVolume_three_tier:
  "estimateMessageVolume monitoringData = three_tier_fallback monitoringData
   \<and> ((monitoringData = None
        \<or> (\<exists>m. monitoringData = Some m \<and> flow_counts m = [] \<and> application_count m = None
                \<and> cpu_average m = None))
       \<longrightarrow> estimatedDailyMessages (estimateMessageVolume monitoringData) = Fin 0
           \<and> estimatedMonthlyMessages (estimateMessageVolume monitoringData) = Fin 0
           \<and> msg_confidence (estimateMessageVolume monitoringData) = NoConfidence)"
proof (cases monitoringData)
  case None
  then show ?thesis
    by (simp add: estimateMessageVolume_def three_tier_fallback_def)
next
  case (Some m)
  have eq: "estimateMessageVolume (Some m) = three_tier_fallback (Some m)"
    by (simp add: estimateMessageVolume_def three_tier_fallback_def message_tiers_def
        flow_tier_eq application_tier_eq cpu_tier_eq Let_def split: option.splits)
  have none: "flow_counts m = [] \<and> application_count m = None \<and> cpu_average m = None
     \<Longrightarrow> three_tier_fallback (Some m) =
       \<lparr>estimatedDailyMessages = Fin 0, estimatedMonthlyMessages = Fin 0,
        msg_confidence = NoConfidence, msg_source = ''No message data available''\<rparr>"
    by (simp add: three_tier_fallback_def Let_def)
  show ?thesis
    using Some eq none by auto
qed

theorem estimateMessageVolume_three_tier_witness:
  "flow_counts no_metrics = [] \<and> application_count no_metrics = None
   \<and> cpu_average no_metrics = None
   \<and> estimatedDailyMessages (estimateMessageVolume (Some no_metrics)) = Fin 0
   \<and> estimatedMonthlyMessages (estimateMessageVolume (Some no_metrics)) = Fin 0
   \<and> msg_confidence (estimateMessageVolume (Some no_metrics)) = NoConfidence"
proof -
  have h: "flow_counts no_metrics = [] \<and> application_count no_metrics = None
           \<and> cpu_average no_metrics = None"
    by (simp add: flow_counts_def application_count_def cpu_average_def no_metrics_def)
  show ?thesis
    using h estimateMessageVolume_three_tier [of "Some no_metrics"] by blast
qed

section \<open>Division by the days of the period\<close>

lemma finite_nonneg_infinity: "finite_nonneg x \<Longrightarrow> nonneg_or_infinity x"
  by (cases x) simp_all

lemma nonneg_or_infinity_foldl:
  "list_all finite_nonneg xs \<Longrightarrow> nonneg_or_infinity t \<Longrightarrow> nonneg_or_infinity (foldl js_add t xs)"
  by (induction xs arbitrary: t) (simp_all add: nonneg_or_infinity_add finite_nonneg_infinity)

lemma not_finite_div_zero: "\<not> is_finite (js_div x (Fin 0))"
  by (cases x) (simp_all add: inf_of_sign_def)

lemma not_finite_mul: "\<not> is_finite x \<Longrightarrow> c \<noteq> 0 \<Longrightarrow> \<not> is_finite (js_mul x (Fin c))"
  by (cases x) (simp_all add: inf_of_sign_def)

lemma not_finite_round: "\<not> is_finite x \<Longrightarrow> \<not> is_finite (js_round x)"
  by (cases x) simp_all

lemma not_finite_not_zero: "\<not> is_finite x \<Longrightarrow> x \<noteq> Fin 0"
  by (cases x) simp_all

lemma tiers_nonneg:
  assumes "period_days m = Fin d" and "0 < d" and "nonneg_metrics m"
  shows "nonneg_or_infinity (fst (message_tiers m))"
proof -
  have flows: "nonneg_or_infinity (js_div (foldl js_add (Fin 0) (flow_counts m)) (Fin d))"
    using assms by (simp add: nonneg_metrics_def nonneg_or_infinity_foldl nonneg_or_infinity_div)
  have app: "application_count m = Some c \<Longrightarrow> nonneg_or_infinity (js_div c (Fin d))" for c
    using assms by (simp add: nonneg_metrics_def nonneg_or_infinity_div finite_nonneg_infinity)
  have cpu: "cpu_average m = Some a \<Longrightarrow> nonneg_or_infinity (js_mul a (Fin 100))" for a
    using assms by (simp add: nonneg_metrics_def nonneg_or_infinity_mul finite_nonneg_infinity)
  show ?thesis
    using flows app cpu assms(1)
    by (simp add: message_tiers_def flow_tier_eq application_tier_eq cpu_tier_eq
        split: option.splits)
qed

text \<open>Whole counts with a total below \<open>2 ^ 53\<close> add up without rounding.\<close>

lemma exact_total_nonneg: "list_all finite_nonneg_integer cs \<Longrightarrow> 0 \<le> exact_total cs"
proof (induction cs)
  case Nil
  show ?case by (simp add: exact_total_def)
next
  case (Cons c cs)
  then show ?case by (cases c) (simp_all add: exact_total_def)
qed

lemma foldl_exact:
  assumes "list_all finite_nonneg_integer cs"
    and "0 \<le> t" and "t = of_int \<lfloor>t\<rfloor>"
    and "t + exact_total cs < 2 ^ 53"
  shows "foldl js_add (Fin t) cs = Fin (t + exact_total cs)"
  using assms
proof (induction cs arbitrary: t)
  case Nil
  then show ?case by (simp add: exact_total_def)
next
  case (Cons c cs)
  from Cons.prems(1) obtain a where c: "c = Fin a" and a0: "0 \<le> a" and aw: "a = of_int \<lfloor>a\<rfloor>"
    and rest: "list_all finite_nonneg_integer cs"
    by (cases c) auto
  have tot: "exact_total (c # cs) = a + exact_total cs"
    using c by (simp add: exact_total_def)
  have rest0: "0 \<le> exact_total cs"
    using rest by (rule exact_total_nonneg)
  let ?k = "\<lfloor>t\<rfloor> + \<lfloor>a\<rfloor>"
  have sum: "t + a = of_int ?k"
    using Cons.prems(3) aw by (metis of_int_add)
  have "t + a < 2 ^ 53"
    using Cons.prems(4) tot rest0 by linarith
  then have "(of_int ?k :: rat) < of_int (2 ^ 53)"
    using sum by simp
  then have "?k < 2 ^ 53"
    by (simp only: of_int_less_iff)
  moreover have "0 \<le> ?k"
    using Cons.prems(2) a0 by simp
  ultimately have "\<bar>?k\<bar> < 2 ^ 53"
    by simp
  then have "round_double (of_int ?k) = Fin (of_int ?k)"
    by (rule round_double_of_int)
  then have step: "js_add (Fin t) c = Fin (t + a)"
    using c sum by simp
  have "foldl js_add (Fin (t + a)) cs = Fin (t + a + exact_total cs)"
  proof (rule Cons.IH [OF rest])
    show "0 \<le> t + a"
      using Cons.prems(2) a0 by simp
    show "t + a = of_int \<lfloor>t + a\<rfloor>"
      using sum by (metis floor_of_int)
    show "t + a + exact_total cs < 2 ^ 53"
      using Cons.prems(4) tot by simp
  qed
  then show ?case
    using step tot by (simp add: add.assoc)
qed

lemma below_pow2_round_double: "0 \<le> x \<Longrightarrow> x \<le> 2 ^ K \<Longrightarrow> K < 1024 \<Longrightarrow> below_pow2 K (round_double x)"
  using round_double_bounded [of x K] by auto

lemma below_pow2_div:
  assumes "below_pow2 K x" and "1 \<le> d" and "K < 1024"
  shows "below_pow2 K (js_div x (Fin d))"
proof -
  from assms(1) obtain y where y: "x = Fin y" "0 \<le> y" "y \<le> 2 ^ K"
    by (cases x) auto
  have "y * 1 \<le> y * d"
    using y(2) assms(2) by (intro mult_left_mono) simp_all
  then have "y / d \<le> y"
    using assms(2) by (simp add: divide_le_eq)
  then have "0 \<le> y / d \<and> y / d \<le> 2 ^ K"
    using y assms(2) by simp
  then show ?thesis
    using y(1) assms(2, 3) by (simp add: below_pow2_round_double)
qed

lemma below_pow2_mul_100:
  assumes "below_pow2 53 x"
  shows "below_pow2 60 (js_mul x (Fin 100))"
proof -
  from assms obtain y where y: "x = Fin y" "0 \<le> y" "y \<le> 2 ^ 53"
    by (cases x) auto
  have "y * 100 \<le> 2 ^ 53 * 2 ^ 7"
    using y by (intro mult_mono) simp_all
  then have "y * 100 \<le> 2 ^ 60"
    by simp
  then show ?thesis
    using y by (simp add: below_pow2_round_double)
qed

lemma below_pow2_mul_30:
  assumes "below_pow2 60 x"
  shows "below_pow2 65 (js_mul x (Fin 30))"
proof -
  from assms obtain y where y: "x = Fin y" "0 \<le> y" "y \<le> 2 ^ 60"
    by (cases x) auto
  have "y * 30 \<le> 2 ^ 60 * 2 ^ 5"
    using y by (intro mult_mono) simp_all
  then have "y * 30 \<le> 2 ^ 65"
    by simp
  then show ?thesis
    using y by (simp add: below_pow2_round_double)
qed

lemma below_pow2_mono: "below_pow2 53 x \<Longrightarrow> below_pow2 60 x"
proof -
  assume "below_pow2 53 x"
  then obtain y where y: "x = Fin y" "0 \<le> y" "y \<le> 2 ^ 53"
    by (cases x) auto
  have "(2::rat) ^ 53 \<le> 2 ^ 60"
    by simp
  then show ?thesis
    using y by simp
qed

lemma below_pow2_at_most: "at_most_2_53 x \<Longrightarrow> below_pow2 53 x"
  by (cases x) simp_all

lemma below_pow2_finite_nonneg: "below_pow2 K x \<Longrightarrow> finite_nonneg x"
  by (cases x) simp_all

lemma tiers_within:
  assumes "period_days m = Fin d" and "1 \<le> d" and "counts_exactly m"
  shows "below_pow2 60 (fst (message_tiers m))"
proof -
  have whole: "list_all finite_nonneg_integer (flow_counts m)"
    and total: "exact_total (flow_counts m) < 2 ^ 53"
    using assms(3) by (simp_all add: counts_exactly_def)
  have "foldl js_add (Fin 0) (flow_counts m) = Fin (0 + exact_total (flow_counts m))"
    using whole total by (intro foldl_exact) simp_all
  moreover have "0 \<le> exact_total (flow_counts m)"
    using whole by (rule exact_total_nonneg)
  ultimately have "below_pow2 53 (foldl js_add (Fin 0) (flow_counts m))"
    using total by simp
  then have flows: "below_pow2 60 (js_div (foldl js_add (Fin 0) (flow_counts m)) (Fin d))"
    using assms(2) by (simp add: below_pow2_div below_pow2_mono)
  have app: "application_count m = Some c \<Longrightarrow> below_pow2 60 (js_div c (Fin d))" for c
    using assms(2, 3) by (simp add: counts_exactly_def below_pow2_at_most below_pow2_div below_pow2_mono)
  have cpu: "cpu_average m = Some a \<Longrightarrow> below_pow2 60 (js_mul a (Fin 100))" for a
    using assms(3) by (simp add: counts_exactly_def below_pow2_at_most below_pow2_mul_100)
  have zero: "below_pow2 60 (Fin 0)"
    by simp
  show ?thesis
    using flows app cpu zero assms(1)
    by (simp add: message_tiers_def flow_tier_eq application_tier_eq cpu_tier_eq
        split: option.splits)
qed

lemma tiers_not_finite:
  assumes "period_days m = Fin 0"
    and "flow_counts m \<noteq> [] \<or> application_count m \<noteq> None"
  shows "\<not> is_finite (fst (message_tiers m))"
proof -
  let ?a1 = "flow_tier m (Fin 0, NoConfidence, ''No message data available'')"
  let ?a2 = "application_tier m ?a1"
  have two: "\<not> is_finite (fst ?a2)"
  proof (cases "flow_counts m = []")
    case True
    then obtain c where c: "application_count m = Some c"
      using assms(2) by auto
    show ?thesis
      using True c assms(1) not_finite_div_zero [of c]
      by (simp add: flow_tier_eq application_tier_eq)
  next
    case False
    have "\<not> is_finite (fst ?a1)"
      using False assms(1) by (simp add: flow_tier_eq not_finite_div_zero)
    then show ?thesis
      using not_finite_not_zero [of "fst ?a1"] by (simp add: application_tier_eq)
  qed
  then have "cpu_tier m ?a2 = ?a2"
    using not_finite_not_zero [of "fst ?a2"] by (simp add: cpu_tier_eq)
  then show ?thesis
    using two by (simp add: message_tiers_def)
qed

text \<open>
  Claim C10, as it is stated, fails for a positive number of days: one flow with the
  count -90 over 30 days gives the daily value -3, and two flows with the count
  \<open>2 ^ 1023\<close> over one day give Infinity for both values.
\<close>

theorem positive_days_not_finite_nonneg:
  "period_days negative_count_over_30_days = Fin 30
   \<and> estimatedDailyMessages (estimateMessageVolume (Some negative_count_over_30_days)) = Fin (- 3)
   \<and> \<not> finite_nonneg_integer
         (estimatedDailyMessages (estimateMessageVolume (Some negative_count_over_30_days)))
   \<and> period_days huge_counts_over_1_day = Fin 1
   \<and> estimatedDailyMessages (estimateMessageVolume (Some huge_counts_over_1_day)) = PInf
   \<and> estimatedMonthlyMessages (estimateMessageVolume (Some huge_counts_over_1_day)) = PInf"
  by (simp add: estimateMessageVolume_Some message_eval negative_count_over_30_days_def
      huge_counts_over_1_day_def inf_of_sign_def)

text \<open>
  Claim C10, amended: when the days of the period are a positive number and the counts
  and the CPU average of the payload are finite and not negative, each returned value is
  an integer that is not negative, or Infinity when a sum, quotient or product leaves
  the range of the doubles; it is never negative and never NaN. The returned values are
  finite integers that are not negative when moreover the days are at least 1, the flow
  counts are whole numbers with a total below \<open>2 ^ 53\<close>, and the application-level count
  and the CPU average are at most \<open>2 ^ 53\<close>. The division has no guard: with zero days
  and a flow-level or application-level count present, neither returned value is finite.
\<close>

theorem division_by_period_days:
  "(\<forall>d. period_days m = Fin d \<and> 0 < d \<and> nonneg_metrics m \<longrightarrow>
        nonneg_integer_or_infinity (estimatedDailyMessages (estimateMessageVolume (Some m)))
        \<and> nonneg_integer_or_infinity (estimatedMonthlyMessages (estimateMessageVolume (Some m))))
   \<and> (\<forall>d. period_days m = Fin d \<and> 1 \<le> d \<and> counts_exactly m \<longrightarrow>
        finite_nonneg_integer (estimatedDailyMessages (estimateMessageVolume (Some m)))
        \<and> finite_nonneg_integer (estimatedMonthlyMessages (estimateMessageVolume (Some m))))
   \<and> (period_days m = Fin 0 \<and> (flow_counts m \<noteq> [] \<or> application_count m \<noteq> None) \<longrightarrow>
        \<not> is_finite (estimatedDailyMessages (estimateMessageVolume (Some m)))
        \<and> \<not> is_finite (estimatedMonthlyMessages (estimateMessageVolume (Some m))))"
proof -
  have pos: "nonneg_integer_or_infinity (estimatedDailyMessages (estimateMessageVolume (Some m)))
        \<and> nonneg_integer_or_infinity (estimatedMonthlyMessages (estimateMessageVolume (Some m)))"
    if "period_days m = Fin d" "0 < d" "nonneg_metrics m" for d
  proof -
    have f: "nonneg_or_infinity (fst (message_tiers m))"
      using that by (rule tiers_nonneg)
    then have "nonneg_or_infinity (js_mul (fst (message_tiers m)) (Fin 30))"
      by (simp add: nonneg_or_infinity_mul)
    then show ?thesis
      using f by (simp add: estimateMessageVolume_Some js_round_nonneg)
  qed
  have exact: "finite_nonneg_integer (estimatedDailyMessages (estimateMessageVolume (Some m)))
        \<and> finite_nonneg_integer (estimatedMonthlyMessages (estimateMessageVolume (Some m)))"
    if "period_days m = Fin d" "1 \<le> d" "counts_exactly m" for d
  proof -
    have f: "below_pow2 60 (fst (message_tiers m))"
      using that by (rule tiers_within)
    then have "below_pow2 65 (js_mul (fst (message_tiers m)) (Fin 30))"
      by (rule below_pow2_mul_30)
    then show ?thesis
      using f by (simp add: estimateMessageVolume_Some js_round_finite_nonneg below_pow2_finite_nonneg)
  qed
  have zero: "\<not> is_finite (estimatedDailyMessages (estimateMessageVolume (Some m)))
        \<and> \<not> is_finite (estimatedMonthlyMessages (estimateMessageVolume (Some m)))"
    if "period_days m = Fin 0" "flow_counts m \<noteq> [] \<or> application_count m \<noteq> None"
  proof -
    have n: "\<not> is_finite (fst (message_tiers m))"
      using that by (rule tiers_not_finite)
    then have "\<not> is_finite (js_mul (fst (message_tiers m)) (Fin 30))"
      by (simp add: not_finite_mul)
    then show ?thesis
      using n by (simp add: estimateMessageVolume_Some not_finite_round)
  qed
  show ?thesis
    using pos exact zero by blast
qed

theorem division_by_period_days_witness:
  "period_days count_3000_over_30_days = Fin 30 \<and> (1::rat) \<le> 30
   \<and> nonneg_metrics count_3000_over_30_days \<and> counts_exactly count_3000_over_30_days
   \<and> estimatedDailyMessages (estimateMessageVolume (Some count_3000_over_30_days)) = Fin 100
   \<and> finite_nonneg_integer
       (estimatedDailyMessages (estimateMessageVolume (Some count_3000_over_30_days)))
   \<and> finite_nonneg_integer
       (estimatedMonthlyMessages (estimateMessageVolume (Some count_3000_over_30_days)))
   \<and> period_days count_3000_over_0_days = Fin 0
   \<and> application_count count_3000_over_0_days = Some (Fin 3000)
   \<and> estimatedDailyMessages (estimateMessageVolume (Some count_3000_over_0_days)) = PInf
   \<and> \<not> is_finite (estimatedDailyMessages (estimateMessageVolume (Some count_3000_over_0_days)))
   \<and> \<not> is_finite (estimatedMonthlyMessages (estimateMessageVolume (Some count_3000_over_0_days)))"
proof -
  have p: "period_days count_3000_over_30_days = Fin 30 \<and> (1::rat) \<le> 30 \<and> (0::rat) < 30
           \<and> nonneg_metrics count_3000_over_30_days \<and> counts_exactly count_3000_over_30_days"
    by (simp add: count_3000_over_30_days_def nonneg_metrics_def counts_exactly_def
        flow_counts_def application_count_def cpu_average_def numeric_count_def
        numeric_average_def period_days_def exact_total_def)
  have z: "period_days count_3000_over_0_days = Fin 0
           \<and> application_count count_3000_over_0_days = Some (Fin 3000)"
    by (simp add: count_3000_over_0_days_def application_count_def numeric_count_def
        period_days_def)
  have v: "estimatedDailyMessages (estimateMessageVolume (Some count_3000_over_30_days)) = Fin 100
           \<and> estimatedDailyMessages (estimateMessageVolume (Some count_3000_over_0_days)) = PInf"
    by (simp add: estimateMessageVolume_Some message_eval count_3000_over_30_days_def
        count_3000_over_0_days_def inf_of_sign_def)
  show ?thesis
    using p z v division_by_period_days [of count_3000_over_30_days]
      division_by_period_days [of count_3000_over_0_days]
    by simp
qed

section \<open>The metadata flow estimator\<close>

lemma fst_fileName_patterns:
  "fst (integration_pattern nm (fileName_pattern nm (Fin 2, s)))
     = Fin (fileName_base nm + integration_bonus nm)"
  by (simp add: integration_pattern_def fileName_pattern_def fileName_base_def
      integration_bonus_def)

lemma fst_domain_patterns:
  "fst (integration_pattern nm (domain_pattern nm (Fin 2, s)))
     = Fin (domain_base nm + integration_bonus nm)"
  by (simp add: integration_pattern_def domain_pattern_def domain_base_def
      integration_bonus_def)

lemma lowered_present:
  "lowered f = Inr (map_option toLowerCase (present_text f)) \<or> f = NotText"
  by (cases f) simp_all

lemma lowered_NotText: "lowered f = Inl e \<longleftrightarrow> f = NotText \<and> e = TypeError"
  by (cases f) auto

lemma name_patterns_returns:
  assumes "name_patterns d (Fin 2, s) = Inr acc"
  shows "fst acc = Fin (name_estimate d)"
proof (cases "fileName d")
  case Absent
  show ?thesis
  proof (cases "domain d")
    case NotText
    with Absent assms show ?thesis
      by (simp add: name_patterns_def)
  next
    case (Text t)
    with Absent assms show ?thesis
      by (auto simp: name_patterns_def name_estimate_def fst_domain_patterns split: if_splits)
  next
    case Absent': Absent
    with Absent assms show ?thesis
      by (auto simp: name_patterns_def name_estimate_def)
  qed
next
  case NotText
  with assms show ?thesis
    by (simp add: name_patterns_def)
next
  case (Text f)
  show ?thesis
  proof (cases "f = []")
    case False
    with Text assms show ?thesis
      by (auto simp: name_patterns_def name_estimate_def fst_fileName_patterns)
  next
    case True
    show ?thesis
    proof (cases "domain d")
      case NotText
      with Text True assms show ?thesis
        by (simp add: name_patterns_def)
    next
      case Text': (Text t)
      with Text True assms show ?thesis
        by (auto simp: name_patterns_def name_estimate_def fst_domain_patterns split: if_splits)
    next
      case Absent
      with Text True assms show ?thesis
        by (auto simp: name_patterns_def name_estimate_def)
    qed
  qed
qed

lemma name_patterns_error:
  "name_patterns d acc = Inl e \<Longrightarrow> e = TypeError \<and> \<not> names_are_text (Some d)"
  by (cases "fileName d"; cases "domain d")
    (auto simp: name_patterns_def split: if_splits)

lemma name_patterns_text:
  "names_are_text (Some d) \<Longrightarrow> \<exists>acc. name_patterns d start = Inr acc"
  by (cases "name_patterns d start") (auto dest: name_patterns_error)

lemma fst_worker_hints:
  "fst (worker_hints d acc)
     = add_bonus (worker_size_bonus d) (add_bonus (worker_count_bonus d) (fst acc))"
  by (simp add: worker_hints_def multiple_workers_def larger_worker_size_def add_bonus_def
      worker_size_bonus_def worker_count_bonus_def split: option.splits)

lemma metadata_returns:
  assumes "estimateBasedOnAppDetails (Some d) = Inr r"
  shows "estimatedFlows r = cap_flows (metadata_estimate d) \<and> confidence r = Low"
proof -
  from assms obtain named where named: "name_patterns d (Fin 2, ''Application metadata'') = Inr named"
    and r: "r = \<lparr>estimatedFlows = cap_flows (fst (worker_hints d named)), confidence = Low,
                 source = snd (worker_hints d named), sizeMB = None, actualAnalysis = None\<rparr>"
    by (auto simp: estimateBasedOnAppDetails_def Let_def split: sum.splits)
  have "fst named = Fin (name_estimate d)"
    using named by (rule name_patterns_returns)
  then show ?thesis
    using r by (simp add: fst_worker_hints metadata_estimate_def)
qed

lemma metadata_error:
  "estimateBasedOnAppDetails a = Inl e \<Longrightarrow> e = TypeError \<and> \<not> names_are_text a"
  by (cases a) (auto simp: estimateBasedOnAppDetails_def Let_def split: sum.splits
      dest: name_patterns_error)

lemma metadata_text_returns: "names_are_text a \<Longrightarrow> \<exists>r. estimateBasedOnAppDetails a = Inr r"
  by (cases "estimateBasedOnAppDetails a") (auto dest: metadata_error)

lemma confidence_metadata:
  assumes "estimateBasedOnAppDetails a = Inr r"
  shows "confidence r = Low"
proof (cases a)
  case None
  with assms show ?thesis
    by (auto simp: estimateBasedOnAppDetails_def)
next
  case (Some d)
  with assms show ?thesis
    by (simp add: metadata_returns)
qed

text \<open>The estimate before the cap is never negative and never NaN.\<close>

lemma name_estimate_nonneg: "0 \<le> name_estimate d"
  by (simp add: name_estimate_def fileName_base_def domain_base_def integration_bonus_def
      split: option.splits)

lemma nonneg_or_infinity_min: "nonneg_or_infinity w \<Longrightarrow> nonneg_or_infinity (math_min (Fin 3) w)"
  by (cases w) (simp_all add: math_min_def)

lemma nonneg_or_infinity_round: "nonneg_or_infinity x \<Longrightarrow> nonneg_or_infinity (js_round x)"
  by (cases x) (simp_all add: math_round_nonneg)

lemma nonneg_or_infinity_minus_1:
  assumes "js_less (Fin 1) x"
  shows "nonneg_or_infinity (js_sub x (Fin 1))"
proof (cases x)
  case (Fin a)
  with assms have "0 \<le> a + - 1"
    by simp
  then have "nonneg_or_infinity (round_double (a + - 1))"
    by (rule round_double_nonneg)
  with Fin show ?thesis
    by (simp add: js_sub_def)
qed (use assms in \<open>simp_all add: js_sub_def\<close>)

lemma nonneg_or_infinity_times_10:
  assumes "js_less (Fin literal_0_1) x"
  shows "nonneg_or_infinity (js_mul x (Fin 10))"
proof (cases x)
  case (Fin a)
  have "0 < literal_0_1"
    by (simp add: literal_0_1_def)
  with assms Fin have "0 \<le> a * 10"
    by simp
  then have "nonneg_or_infinity (round_double (a * 10))"
    by (rule round_double_nonneg)
  with Fin show ?thesis
    by simp
qed (use assms in \<open>simp_all add: inf_of_sign_def\<close>)

lemma worker_count_bonus_nonneg: "worker_count_bonus d = Some v \<Longrightarrow> nonneg_or_infinity v"
  by (auto simp: worker_count_bonus_def nonneg_or_infinity_min nonneg_or_infinity_minus_1
      split: option.splits if_splits)

lemma worker_size_bonus_nonneg: "worker_size_bonus d = Some v \<Longrightarrow> nonneg_or_infinity v"
  by (auto simp: worker_size_bonus_def nonneg_or_infinity_min nonneg_or_infinity_round
      nonneg_or_infinity_times_10 split: option.splits if_splits)

lemma add_bonus_nonneg:
  "nonneg_or_infinity x \<Longrightarrow> (\<And>v. b = Some v \<Longrightarrow> nonneg_or_infinity v) \<Longrightarrow>
   nonneg_or_infinity (add_bonus b x)"
  by (cases b) (simp_all add: add_bonus_def nonneg_or_infinity_add)

lemma metadata_estimate_nonneg: "nonneg_or_infinity (metadata_estimate d)"
proof -
  have "nonneg_or_infinity (Fin (name_estimate d))"
    by (simp add: name_estimate_nonneg)
  then have "nonneg_or_infinity (add_bonus (worker_count_bonus d) (Fin (name_estimate d)))"
    by (rule add_bonus_nonneg) (rule worker_count_bonus_nonneg)
  then show ?thesis
    unfolding metadata_estimate_def
    by (rule add_bonus_nonneg) (rule worker_size_bonus_nonneg)
qed

lemma cap_flows_range:
  "nonneg_or_infinity x \<Longrightarrow> \<exists>y. cap_flows x = Fin y \<and> 1 \<le> y \<and> y \<le> 20"
  by (cases x) (auto simp: cap_flows_def math_min_def math_max_def)

lemma metadata_range:
  assumes "estimateBasedOnAppDetails a = Inr r"
  shows "\<exists>y. estimatedFlows r = Fin y \<and> 1 \<le> y \<and> y \<le> 20"
proof (cases a)
  case None
  with assms show ?thesis
    by (auto simp: estimateBasedOnAppDetails_def)
next
  case (Some d)
  with assms have "estimatedFlows r = cap_flows (metadata_estimate d)"
    by (simp add: metadata_returns)
  then show ?thesis
    using cap_flows_range [OF metadata_estimate_nonneg, of d] by simp
qed

lemmas name_eval = estimateBasedOnAppDetails_def name_patterns_def worker_hints_def
  multiple_workers_def larger_worker_size_def toLowerCase_def lower_char_def
  fileName_pattern_def domain_pattern_def integration_pattern_def cap_flows_def math_min_def
  math_max_def literal_0_1_def

text \<open>
  Claim C3: for every metadata record on which the estimator returns, the estimate is the
  base read from the file name when that is a string that is not empty, else from the
  domain (5 for the EAPI patterns, 7 for PAPI, 3 for SAPI, else 2), plus one integration
  bonus by first match (Salesforce 2, database 1, Splunk 1), plus the worker bonuses,
  capped to 1..20, with confidence low; it returns whenever the two names are strings or
  absent. The file name \<open>customer-eapi-salesforce-v1.jar\<close> without workers gives 7, and
  the domain \<open>order-papi-database\<close> with one worker of weight 0 gives 8.
\<close>

theorem estimateBasedOnAppDetails_patterns:
  "(\<forall>r. estimateBasedOnAppDetails (Some d) = Inr r \<longrightarrow>
        estimatedFlows r = math_max (Fin 1) (math_min (Fin 20) (metadata_estimate d))
        \<and> confidence r = Low)
   \<and> (names_are_text (Some d) \<longrightarrow> (\<exists>r. estimateBasedOnAppDetails (Some d) = Inr r))
   \<and> (\<exists>r. estimateBasedOnAppDetails
            (Some \<lparr>fileName = Text ''customer-eapi-salesforce-v1.jar'', domain = dm,
                   workers = None\<rparr>) = Inr r
          \<and> estimatedFlows r = Fin 7 \<and> confidence r = Low)
   \<and> (\<exists>r. estimateBasedOnAppDetails
            (Some \<lparr>fileName = Absent, domain = Text ''order-papi-database'',
                   workers = Some \<lparr>amount = Some 1, type = Some \<lparr>weight = Some 0\<rparr>\<rparr>\<rparr>) = Inr r
          \<and> estimatedFlows r = Fin 8 \<and> confidence r = Low)"
proof -
  have general: "estimatedFlows r = math_max (Fin 1) (math_min (Fin 20) (metadata_estimate d))
        \<and> confidence r = Low" if "estimateBasedOnAppDetails (Some d) = Inr r" for r
    using metadata_returns [OF that] by (simp add: cap_flows_def)
  have returns: "names_are_text (Some d) \<Longrightarrow> \<exists>r. estimateBasedOnAppDetails (Some d) = Inr r"
    by (rule metadata_text_returns)
  have one: "\<exists>r. estimateBasedOnAppDetails
            (Some \<lparr>fileName = Text ''customer-eapi-salesforce-v1.jar'', domain = dm,
                   workers = None\<rparr>) = Inr r
          \<and> estimatedFlows r = Fin 7 \<and> confidence r = Low"
    by (simp add: name_eval)
  have two: "\<exists>r. estimateBasedOnAppDetails
            (Some \<lparr>fileName = Absent, domain = Text ''order-papi-database'',
                   workers = Some \<lparr>amount = Some 1, type = Some \<lparr>weight = Some 0\<rparr>\<rparr>\<rparr>) = Inr r
          \<and> estimatedFlows r = Fin 8 \<and> confidence r = Low"
    by (simp add: name_eval)
  show ?thesis
    using general returns one two by blast
qed

theorem estimateBasedOnAppDetails_patterns_witness:
  "names_are_text (Some \<lparr>fileName = Text ''orders-sapi-splunk.jar'', domain = Absent,
                         workers = Some \<lparr>amount = Some 3, type = None\<rparr>\<rparr>)
   \<and> metadata_estimate \<lparr>fileName = Text ''orders-sapi-splunk.jar'', domain = Absent,
                         workers = Some \<lparr>amount = Some 3, type = None\<rparr>\<rparr> = Fin 6
   \<and> (\<exists>r. estimateBasedOnAppDetails
            (Some \<lparr>fileName = Text ''orders-sapi-splunk.jar'', domain = Absent,
                   workers = Some \<lparr>amount = Some 3, type = None\<rparr>\<rparr>) = Inr r
          \<and> estimatedFlows r = Fin 6 \<and> confidence r = Low)"
proof -
  let ?d = "\<lparr>fileName = Text ''orders-sapi-splunk.jar'', domain = Absent,
             workers = Some \<lparr>amount = Some 3, type = None\<rparr>\<rparr>"
  have t: "names_are_text (Some ?d)"
    by simp
  have m: "metadata_estimate ?d = Fin 6"
    by (simp add: metadata_estimate_def add_bonus_def worker_size_bonus_def
        worker_count_bonus_def name_estimate_def fileName_base_def integration_bonus_def
        toLowerCase_def lower_char_def math_min_def js_sub_def)
  have c: "math_max (Fin 1) (math_min (Fin 20) (Fin 6)) = Fin 6"
    by (simp add: math_min_def math_max_def)
  show ?thesis
    using t m c estimateBasedOnAppDetails_patterns [of ?d] by auto
qed

section \<open>The artifact flow counter\<close>

lemma extract_flows_None:
  "extract_flows h p = None \<longleftrightarrow> (\<exists>e. muleConfigs h p = Inl e) \<or> muleConfigs h p = Inr []"
  by (cases "muleConfigs h p") (auto simp: extract_flows_def split: prod.splits)

lemma extract_flows_Some:
  "muleConfigs h p = Inr files \<Longrightarrow> files \<noteq> [] \<Longrightarrow>
   \<exists>n. extract_flows h p = Some (n, ''XML analysis'')"
  by (simp add: extract_flows_def split: prod.splits)

lemma foldl_count_config_nonneg:
  assumes "prints_counts files"
    and "nonneg_or_infinity a \<and> nonneg_or_infinity b \<and> nonneg_or_infinity c"
    and "foldl count_config (a, b, c) files = (a', b', c')"
  shows "nonneg_or_infinity a' \<and> nonneg_or_infinity b' \<and> nonneg_or_infinity c'"
  using assms
proof (induction files arbitrary: a b c)
  case Nil
  then show ?case by simp
next
  case (Cons out files)
  obtain x y z where out: "out = (x, y, z)"
    by (cases out)
  have here: "finite_nonneg (parseInt (trim x)) \<and> finite_nonneg (parseInt (trim y))
              \<and> finite_nonneg (parseInt (trim z))"
    and rest: "prints_counts files"
    using Cons.prems(1) out by (simp_all add: prints_counts_def)
  show ?case
  proof (rule Cons.IH [OF rest])
    show "nonneg_or_infinity (js_add a (parseInt (trim x)))
          \<and> nonneg_or_infinity (js_add b (parseInt (trim y)))
          \<and> nonneg_or_infinity (js_add c (parseInt (trim z)))"
      using Cons.prems(2) here by (simp add: nonneg_or_infinity_add finite_nonneg_infinity)
    have step: "count_config (a, b, c) (x, y, z) =
                  (js_add a (parseInt (trim x)), js_add b (parseInt (trim y)),
                   js_add c (parseInt (trim z)))"
      by (simp add: count_config_def)
    show "foldl count_config
            (js_add a (parseInt (trim x)), js_add b (parseInt (trim y)),
             js_add c (parseInt (trim z))) files = (a', b', c')"
      using Cons.prems(3) out step by simp
  qed
qed

lemma extract_flows_nonneg:
  assumes "muleConfigs h p = Inr files" and "prints_counts files"
    and "extract_flows h p = Some (n, src)"
  shows "nonneg_or_infinity n"
proof -
  obtain a b c where f: "foldl count_config (Fin 0, Fin 0, Fin 0) files = (a, b, c)"
    by (cases "foldl count_config (Fin 0, Fin 0, Fin 0) files")
  have "nonneg_or_infinity a \<and> nonneg_or_infinity b \<and> nonneg_or_infinity c"
    using assms(2) _ f by (rule foldl_count_config_nonneg) simp
  moreover have "n = js_add (js_add a b) c"
    using assms(1, 3) f by (simp add: extract_flows_def split: if_splits)
  ultimately show ?thesis
    by (simp add: nonneg_or_infinity_add)
qed

lemma analyze_no_jar:
  "truthy_string jarPath = None \<Longrightarrow>
   analyzeJarForFlows h jarPath a = estimateBasedOnAppDetails a"
  by (simp add: analyzeJarForFlows_def)

lemma analyze_missing:
  "truthy_string jarPath = Some p \<Longrightarrow> \<not> existsSync h p \<Longrightarrow>
   analyzeJarForFlows h jarPath a = estimateBasedOnAppDetails a"
  by (simp add: analyzeJarForFlows_def)

lemma analyze_stat_fails:
  "truthy_string jarPath = Some p \<Longrightarrow> existsSync h p \<Longrightarrow> statSync h p = Inl e \<Longrightarrow>
   analyzeJarForFlows h jarPath a = estimateBasedOnAppDetails a"
  by (simp add: analyzeJarForFlows_def try_catch_def)

lemma analyze_size:
  "truthy_string jarPath = Some p \<Longrightarrow> existsSync h p \<Longrightarrow> statSync h p = Inr bytes \<Longrightarrow>
   extract_flows h p = None \<Longrightarrow>
   analyzeJarForFlows h jarPath a =
     Inr \<lparr>estimatedFlows = Fin (size_heuristic (of_nat bytes / (1024 * 1024))), confidence = Low,
          source = ''JAR size heuristic'', sizeMB = Some (of_nat bytes / (1024 * 1024)),
          actualAnalysis = Some False\<rparr>"
  by (simp add: analyzeJarForFlows_def try_catch_def Let_def)

lemma analyze_xml:
  "truthy_string jarPath = Some p \<Longrightarrow> existsSync h p \<Longrightarrow> statSync h p = Inr bytes \<Longrightarrow>
   extract_flows h p = Some (n, src) \<Longrightarrow>
   analyzeJarForFlows h jarPath a =
     Inr \<lparr>estimatedFlows = n, confidence = High, source = src,
          sizeMB = Some (of_nat bytes / (1024 * 1024)), actualAnalysis = Some True\<rparr>"
  by (simp add: analyzeJarForFlows_def try_catch_def Let_def)

lemma size_heuristic_range: "1 \<le> size_heuristic x \<and> size_heuristic x \<le> 20"
  by (simp add: size_heuristic_def)

text \<open>The paths of \<^verbatim>\<open>analyzeJarForFlows\<close>: every call takes one of three.\<close>

lemma analyze_paths:
  "(\<not> structured_extraction h jarPath
      \<and> analyzeJarForFlows h jarPath a = estimateBasedOnAppDetails a)
   \<or> (\<not> structured_extraction h jarPath
      \<and> (\<exists>p bytes. truthy_string jarPath = Some p \<and> existsSync h p
            \<and> statSync h p = Inr bytes \<and> extract_flows h p = None
            \<and> analyzeJarForFlows h jarPath a =
                Inr \<lparr>estimatedFlows = Fin (size_heuristic (of_nat bytes / (1024 * 1024))),
                     confidence = Low, source = ''JAR size heuristic'',
                     sizeMB = Some (of_nat bytes / (1024 * 1024)),
                     actualAnalysis = Some False\<rparr>))
   \<or> (structured_extraction h jarPath
      \<and> (\<exists>p files n mb. truthy_string jarPath = Some p \<and> muleConfigs h p = Inr files
            \<and> extract_flows h p = Some (n, ''XML analysis'')
            \<and> analyzeJarForFlows h jarPath a =
                Inr \<lparr>estimatedFlows = n, confidence = High, source = ''XML analysis'',
                     sizeMB = Some mb, actualAnalysis = Some True\<rparr>))"
proof (cases "truthy_string jarPath")
  case None
  then show ?thesis
    by (simp add: analyze_no_jar structured_extraction_def)
next
  case (Some p)
  show ?thesis
  proof (cases "existsSync h p")
    case False
    with Some show ?thesis
      by (simp add: analyze_missing structured_extraction_def)
  next
    case True
    show ?thesis
    proof (cases "statSync h p")
      case (Inl e)
      with Some True show ?thesis
        by (simp add: analyze_stat_fails structured_extraction_def)
    next
      case (Inr bytes)
      show ?thesis
      proof (cases "extract_flows h p = None")
        case True
        have "\<not> structured_extraction h jarPath"
          using True Some Inr extract_flows_None [of h p]
          by (auto simp: structured_extraction_def)
        then show ?thesis
          using analyze_size [OF Some \<open>existsSync h p\<close> Inr True] Some \<open>existsSync h p\<close> Inr True
          by blast
      next
        case False
        then obtain files where files: "muleConfigs h p = Inr files" "files \<noteq> []"
          using extract_flows_None [of h p] by (cases "muleConfigs h p") auto
        have s: "structured_extraction h jarPath"
          using Some \<open>existsSync h p\<close> Inr files by (simp add: structured_extraction_def)
        obtain n where n: "extract_flows h p = Some (n, ''XML analysis'')"
          using extract_flows_Some [OF files] by blast
        show ?thesis
          using s Some files(1) n analyze_xml [OF Some \<open>existsSync h p\<close> Inr n]
          by blast
      qed
    qed
  qed
qed

lemma analyze_error:
  assumes "analyzeJarForFlows h jarPath a = Inl e"
  shows "e = TypeError \<and> \<not> names_are_text a"
proof -
  have "estimateBasedOnAppDetails a = Inl e"
    using analyze_paths [of h jarPath a] assms by auto
  then show ?thesis
    by (rule metadata_error)
qed

lemma analyze_returns: "names_are_text a \<Longrightarrow> \<exists>r. analyzeJarForFlows h jarPath a = Inr r"
  by (cases "analyzeJarForFlows h jarPath a") (auto dest: analyze_error)

lemmas host_eval = uniform_host_def structured_extraction_def

lemmas counter_eval = analyzeJarForFlows_def try_catch_def extract_flows_def count_config_def
  uniform_host_def parseInt_def trim_def is_space_def is_digit_def digits_value_def

text \<open>
  Claim C4: when the artifact's path is given and exists, its size can be read, and the
  extraction step throws or finds no configuration file, the result is the size
  heuristic \<open>clamp (round (sizeInMB / 0.5), 1, 20)\<close> with confidence low and source
  "JAR size heuristic", whatever the metadata; an artifact of 2.3 MB gives 5.
\<close>

theorem size_heuristic_when_no_structured_result:
  assumes "truthy_string jarPath = Some p"
    and "existsSync h p"
    and "statSync h p = Inr bytes"
    and "(\<exists>e. muleConfigs h p = Inl e) \<or> muleConfigs h p = Inr []"
  shows "analyzeJarForFlows h jarPath a =
           Inr \<lparr>estimatedFlows =
                  Fin (max 1 (min 20 (math_round (of_nat bytes / (1024 * 1024) / (1 / 2))))),
                confidence = Low, source = ''JAR size heuristic'',
                sizeMB = Some (of_nat bytes / (1024 * 1024)), actualAnalysis = Some False\<rparr>
         \<and> size_heuristic (23 / 10) = 5"
proof -
  have "extract_flows h p = None"
    using assms(4) extract_flows_None [of h p] by simp
  then show ?thesis
    using analyze_size [OF assms(1) assms(2) assms(3)] by (simp add: size_heuristic_def)
qed

theorem size_heuristic_when_no_structured_result_witness:
  "truthy_string (Some ''app.jar'') = Some ''app.jar''
   \<and> existsSync (uniform_host True (Inr 2411725) (Inr [])) ''app.jar''
   \<and> statSync (uniform_host True (Inr 2411725) (Inr [])) ''app.jar'' = Inr 2411725
   \<and> muleConfigs (uniform_host True (Inr 2411725) (Inr [])) ''app.jar'' = Inr []
   \<and> (\<exists>r. analyzeJarForFlows (uniform_host True (Inr 2411725) (Inr [])) (Some ''app.jar'')
             (Some numeric_fileName) = Inr r
          \<and> estimatedFlows r = Fin 5 \<and> confidence r = Low \<and> source r = ''JAR size heuristic'')"
proof -
  let ?h = "uniform_host True (Inr 2411725) (Inr [])"
  have 1: "truthy_string (Some ''app.jar'') = Some ''app.jar''"
    by simp
  have 2: "existsSync ?h ''app.jar''"
    by (simp add: uniform_host_def)
  have 3: "statSync ?h ''app.jar'' = Inr 2411725"
    by (simp add: uniform_host_def)
  have 4: "(\<exists>e. muleConfigs ?h ''app.jar'' = Inl e) \<or> muleConfigs ?h ''app.jar'' = Inr []"
    by (simp add: uniform_host_def)
  have 5: "muleConfigs ?h ''app.jar'' = Inr []"
    by (simp add: uniform_host_def)
  have "max 1 (min 20 (math_round (of_nat 2411725 / (1024 * 1024) / (1 / 2)))) = (5::rat)"
    by simp
  then show ?thesis
    using 1 2 3 5
      size_heuristic_when_no_structured_result [OF 1 2 3 4, of "Some numeric_fileName"]
    by simp
qed

text \<open>
  Claim C5 holds for the heuristic paths and fails for the structured extraction. The
  metadata estimate and the size heuristic lie between 1 and 20 for every input on which
  they return, and the structured count is not negative when every \<^verbatim>\<open>grep\<close>
  command printed a count. A configuration file for which the three commands print
  nothing gives the count NaN, returned with confidence high: NaN is not a number that
  is at least 0. The structured count is not capped: a file with 25 flows gives 25.
\<close>

theorem flow_estimate_ranges:
  "(\<forall>r. estimateBasedOnAppDetails a = Inr r \<longrightarrow>
        (\<exists>x. estimatedFlows r = Fin x \<and> 1 \<le> x \<and> x \<le> 20))
   \<and> (\<forall>r. analyzeJarForFlows h jarPath a = Inr r \<and> \<not> structured_extraction h jarPath \<longrightarrow>
        (\<exists>x. estimatedFlows r = Fin x \<and> 1 \<le> x \<and> x \<le> 20))
   \<and> (\<forall>r p files. analyzeJarForFlows h jarPath a = Inr r \<and> structured_extraction h jarPath
          \<and> truthy_string jarPath = Some p \<and> muleConfigs h p = Inr files
          \<and> prints_counts files \<longrightarrow>
        nonneg_or_infinity (estimatedFlows r))
   \<and> analyzeJarForFlows (uniform_host True (Inr 2411725) (Inr [('''', '''', '''')]))
       (Some ''app.jar'') a
       = Inr \<lparr>estimatedFlows = NaN, confidence = High, source = ''XML analysis'',
              sizeMB = Some (2411725 / (1024 * 1024)), actualAnalysis = Some True\<rparr>
   \<and> \<not> nonneg_or_infinity NaN
   \<and> analyzeJarForFlows (uniform_host True (Inr 2411725) (Inr [(''25'', ''0'', ''0'')]))
       (Some ''app.jar'') a
       = Inr \<lparr>estimatedFlows = Fin 25, confidence = High, source = ''XML analysis'',
              sizeMB = Some (2411725 / (1024 * 1024)), actualAnalysis = Some True\<rparr>"
proof -
  have meta: "\<exists>x. estimatedFlows r = Fin x \<and> 1 \<le> x \<and> x \<le> 20"
    if "estimateBasedOnAppDetails a = Inr r" for r
    using that by (rule metadata_range)
  have heur: "\<exists>x. estimatedFlows r = Fin x \<and> 1 \<le> x \<and> x \<le> 20"
    if r: "analyzeJarForFlows h jarPath a = Inr r" and n: "\<not> structured_extraction h jarPath"
    for r
  proof -
    consider
      (meta) "estimateBasedOnAppDetails a = Inr r"
      | (size) x where "estimatedFlows r = Fin (size_heuristic x)"
      using analyze_paths [of h jarPath a] r n by auto
    then show ?thesis
    proof cases
      case meta
      then show ?thesis
        by (rule metadata_range)
    next
      case size
      then show ?thesis
        using size_heuristic_range [of x] by simp
    qed
  qed
  have struct: "nonneg_or_infinity (estimatedFlows r)"
    if r: "analyzeJarForFlows h jarPath a = Inr r" and s: "structured_extraction h jarPath"
      and p: "truthy_string jarPath = Some p" and files: "muleConfigs h p = Inr files"
      and counts: "prints_counts files"
    for r p files
  proof -
    obtain n where n: "extract_flows h p = Some (n, ''XML analysis'')"
      and out: "estimatedFlows r = n"
      using analyze_paths [of h jarPath a] r s p by auto
    have "nonneg_or_infinity n"
      using files counts n by (rule extract_flows_nonneg)
    then show ?thesis
      using out by simp
  qed
  have nan: "analyzeJarForFlows (uniform_host True (Inr 2411725) (Inr [('''', '''', '''')]))
       (Some ''app.jar'') a
       = Inr \<lparr>estimatedFlows = NaN, confidence = High, source = ''XML analysis'',
              sizeMB = Some (2411725 / (1024 * 1024)), actualAnalysis = Some True\<rparr>"
    by (simp add: counter_eval)
  have many: "analyzeJarForFlows (uniform_host True (Inr 2411725) (Inr [(''25'', ''0'', ''0'')]))
       (Some ''app.jar'') a
       = Inr \<lparr>estimatedFlows = Fin 25, confidence = High, source = ''XML analysis'',
              sizeMB = Some (2411725 / (1024 * 1024)), actualAnalysis = Some True\<rparr>"
    by (simp add: counter_eval)
  show ?thesis
    using meta heur struct nan many by (intro conjI allI impI) (blast, blast, blast, simp_all)
qed

theorem flow_estimate_ranges_witness:
  "\<not> structured_extraction (uniform_host True (Inr 52428800) (Inl ShellError)) (Some ''app.jar'')
   \<and> (\<exists>r. analyzeJarForFlows (uniform_host True (Inr 52428800) (Inl ShellError))
             (Some ''app.jar'') None = Inr r
          \<and> estimatedFlows r = Fin 20)
   \<and> structured_extraction (uniform_host True (Inr 2411725) (Inr [(''3'', ''1'', ''0'')]))
       (Some ''app.jar'')
   \<and> prints_counts [(''3'', ''1'', ''0'')]
   \<and> (\<exists>r. analyzeJarForFlows (uniform_host True (Inr 2411725) (Inr [(''3'', ''1'', ''0'')]))
             (Some ''app.jar'') None = Inr r
          \<and> estimatedFlows r = Fin 4 \<and> nonneg_or_infinity (estimatedFlows r))
   \<and> (\<exists>r x. estimateBasedOnAppDetails None = Inr r \<and> estimatedFlows r = Fin x
          \<and> 1 \<le> x \<and> x \<le> 20)"
proof -
  let ?h1 = "uniform_host True (Inr 52428800) (Inl ShellError)"
  let ?h2 = "uniform_host True (Inr 2411725) (Inr [(''3'', ''1'', ''0'')])"
  have n: "\<not> structured_extraction ?h1 (Some ''app.jar'')"
    by (simp add: host_eval)
  have r1: "analyzeJarForFlows ?h1 (Some ''app.jar'') None =
             Inr \<lparr>estimatedFlows = Fin 20, confidence = Low, source = ''JAR size heuristic'',
                  sizeMB = Some 50, actualAnalysis = Some False\<rparr>"
    by (simp add: counter_eval size_heuristic_def)
  have s: "structured_extraction ?h2 (Some ''app.jar'')
           \<and> truthy_string (Some ''app.jar'') = Some ''app.jar''
           \<and> muleConfigs ?h2 ''app.jar'' = Inr [(''3'', ''1'', ''0'')]"
    by (simp add: host_eval)
  have c: "prints_counts [(''3'', ''1'', ''0'')]"
    by (simp add: prints_counts_def parseInt_def trim_def is_space_def is_digit_def
        digits_value_def)
  have r2: "analyzeJarForFlows ?h2 (Some ''app.jar'') None =
             Inr \<lparr>estimatedFlows = Fin 4, confidence = High, source = ''XML analysis'',
                  sizeMB = Some (2411725 / (1024 * 1024)), actualAnalysis = Some True\<rparr>"
    by (simp add: counter_eval)
  have m: "estimateBasedOnAppDetails None =
             Inr \<lparr>estimatedFlows = Fin 2, confidence = Low,
                  source = ''Default estimate (no metadata)'', sizeMB = None,
                  actualAnalysis = None\<rparr>"
    by (simp add: estimateBasedOnAppDetails_def)
  show ?thesis
    using n r1 s c r2 m flow_estimate_ranges [of None ?h1 "Some ''app.jar''"]
      flow_estimate_ranges [of None ?h2 "Some ''app.jar''"]
    by simp
qed

text \<open>
  Claim C6: the confidence of a flow estimate is high exactly when the structured
  extraction succeeds; the size heuristic, every metadata estimate and the default
  without metadata have confidence low.
\<close>

theorem confidence_high_only_structured:
  "(\<forall>r. estimateBasedOnAppDetails a = Inr r \<longrightarrow> confidence r = Low)
   \<and> (\<forall>r. analyzeJarForFlows h jarPath a = Inr r \<longrightarrow>
          (confidence r = High) = structured_extraction h jarPath
          \<and> (\<not> structured_extraction h jarPath \<longrightarrow> confidence r = Low))"
proof -
  have "(confidence r = High) = structured_extraction h jarPath
        \<and> (\<not> structured_extraction h jarPath \<longrightarrow> confidence r = Low)"
    if r: "analyzeJarForFlows h jarPath a = Inr r" for r
  proof -
    consider
      (meta) "\<not> structured_extraction h jarPath" "estimateBasedOnAppDetails a = Inr r"
      | (size) "\<not> structured_extraction h jarPath" "confidence r = Low"
      | (xml) "structured_extraction h jarPath" "confidence r = High"
      using analyze_paths [of h jarPath a] r by auto
    then show ?thesis
      by cases (simp_all add: confidence_metadata)
  qed
  then show ?thesis
    by (simp add: confidence_metadata)
qed

theorem confidence_high_only_structured_witness:
  "(\<exists>r. analyzeJarForFlows (uniform_host True (Inr 2411725) (Inr [(''3'', ''1'', ''0'')]))
           (Some ''app.jar'') None = Inr r
        \<and> confidence r = High
        \<and> structured_extraction (uniform_host True (Inr 2411725) (Inr [(''3'', ''1'', ''0'')]))
            (Some ''app.jar''))
   \<and> (\<exists>r. analyzeJarForFlows (uniform_host True (Inr 2411725) (Inr [])) (Some ''app.jar'') None
             = Inr r
          \<and> confidence r = Low
          \<and> \<not> structured_extraction (uniform_host True (Inr 2411725) (Inr []))
                (Some ''app.jar''))
   \<and> (\<exists>r. estimateBasedOnAppDetails None = Inr r \<and> confidence r = Low)"
proof -
  let ?h1 = "uniform_host True (Inr 2411725) (Inr [(''3'', ''1'', ''0'')])"
  let ?h2 = "uniform_host True (Inr 2411725) (Inr [])"
  obtain r1 where r1: "analyzeJarForFlows ?h1 (Some ''app.jar'') None = Inr r1"
    using analyze_returns [of None] by auto
  obtain r2 where r2: "analyzeJarForFlows ?h2 (Some ''app.jar'') None = Inr r2"
    using analyze_returns [of None] by auto
  obtain r3 where r3: "estimateBasedOnAppDetails None = Inr r3"
    using metadata_text_returns [of None] by auto
  have s1: "structured_extraction ?h1 (Some ''app.jar'')"
    by (simp add: host_eval)
  have s2: "\<not> structured_extraction ?h2 (Some ''app.jar'')"
    by (simp add: host_eval)
  show ?thesis
    using r1 r2 r3 s1 s2
      confidence_high_only_structured [of None ?h1 "Some ''app.jar''"]
      confidence_high_only_structured [of None ?h2 "Some ''app.jar''"]
    by auto
qed




section \<open>Flattening the business groups\<close>

lemma foldl_append_flatten:
  "foldl (\<lambda>result subOrg. result @ flattenBusinessGroups subOrg) acc subs =
     acc @ concat (map flattenBusinessGroups subs)"
  by (induction subs arbitrary: acc) simp_all

lemma flatten_preorder:
  "flattenBusinessGroups (BusinessGroup gid gname gparent subs) =
     \<lparr>flat_id = gid, flat_name = gname, flat_parentId = truthy_string gparent\<rparr>
       # concat (map flattenBusinessGroups subs)"
  by (simp add: foldl_append_flatten)

text \<open>
  Claim C8, as it is stated, fails: the children of the hierarchy below carry no parent
  identifier of their own, and the entry of the first child has none either.
\<close>

theorem child_parentId_not_root:
  "flat_parentId (flattenBusinessGroups root_with_bare_children ! 1) \<noteq> Some ''root''"
  by (simp add: root_with_bare_children_def)

text \<open>
  Claim C8, amended: a root with two children that have no children of their own
  flattens to exactly three entries, the root first and the children in their order;
  the parent identifier of each entry is copied from that node's own field (none when
  the field is absent or empty), so it points at the root when the child's own field
  holds the root's identifier. In general the entry of a node comes before the entries
  of its sub-organizations.
\<close>

theorem flatten_root_two_children:
  "flattenBusinessGroups
     (BusinessGroup rid rname rparent [BusinessGroup id1 n1 p1 [], BusinessGroup id2 n2 p2 []])
     = [\<lparr>flat_id = rid, flat_name = rname, flat_parentId = truthy_string rparent\<rparr>,
        \<lparr>flat_id = id1, flat_name = n1, flat_parentId = truthy_string p1\<rparr>,
        \<lparr>flat_id = id2, flat_name = n2, flat_parentId = truthy_string p2\<rparr>]
   \<and> (rid \<noteq> [] \<and> p1 = Some rid \<and> p2 = Some rid \<longrightarrow>
        map flat_parentId (tl (flattenBusinessGroups
          (BusinessGroup rid rname rparent
             [BusinessGroup id1 n1 p1 [], BusinessGroup id2 n2 p2 []])))
        = [Some rid, Some rid])
   \<and> flattenBusinessGroups (BusinessGroup gid gname gparent subs) =
        \<lparr>flat_id = gid, flat_name = gname, flat_parentId = truthy_string gparent\<rparr>
          # concat (map flattenBusinessGroups subs)"
  by (simp add: foldl_append_flatten)

theorem flatten_root_two_children_witness:
  "length (flattenBusinessGroups root_with_two_children) = 3
   \<and> flat_id (hd (flattenBusinessGroups root_with_two_children)) = ''root''
   \<and> map flat_parentId (tl (flattenBusinessGroups root_with_two_children))
       = [Some ''root'', Some ''root'']"
proof -
  have h: "''root'' \<noteq> []"
    by simp
  show ?thesis
    using h flatten_root_two_children
      [of "''root''" "''Root''" None "''a''" "''A''" "Some ''root''" "''b''" "''B''" "Some ''root''"]
    by (simp add: root_with_two_children_def)
qed


section \<open>The summary of the inventory\<close>

lemma for_each_invariant:
  assumes "for_each f s xs = Inr s'"
    and "P s"
    and "\<And>s x s''. P s \<Longrightarrow> f s x = Inr s'' \<Longrightarrow> P s''"
  shows "P s'"
  using assms
proof (induction xs arbitrary: s)
  case Nil
  then show ?case by simp
next
  case (Cons x xs)
  from Cons.prems(1) obtain s1 where s1: "f s x = Inr s1" "for_each f s1 xs = Inr s'"
    by (cases "f s x") simp_all
  have "P s1"
    using Cons.prems(2) s1(1) by (rule Cons.prems(3))
  with s1(2) show ?case
    using Cons.prems(3) by (rule Cons.IH)
qed

lemma for_each_returns:
  assumes "\<And>s x. \<exists>s'. f s x = Inr s'"
  shows "\<exists>s'. for_each f s xs = Inr s'"
proof (induction xs arbitrary: s)
  case Nil
  show ?case by simp
next
  case (Cons x xs)
  obtain s1 where "f s x = Inr s1"
    using assms by blast
  then show ?case
    using Cons.IH [of s1] by simp
qed

lemma process_application_step:
  assumes "process_application cfg pf h grp env st a = Inr st'"
  shows "\<exists>d. st' = (fst st @ [d], update_summary (snd st) d)"
  using assms
  by (auto simp: process_application_def Let_def split: sum.splits)

lemma process_application_returns:
  assumes "names_are_text (getApplicationDetails pf (flat_id grp) (env_id env) (app_domain a))"
  shows "\<exists>st'. process_application cfg pf h grp env st a = Inr st'"
proof -
  obtain fa where
    "analyzeJarForFlows h
       (truthy_string
         (case getApplicationDetails pf (flat_id grp) (env_id env) (app_domain a) of
            Some d \<Rightarrow>
              (if downloadJars cfg
                 then downloadApplicationJar pf (flat_id grp) (env_id env) d
               else None)
          | None \<Rightarrow> None))
       (getApplicationDetails pf (flat_id grp) (env_id env) (app_domain a)) = Inr fa"
    using analyze_returns [OF assms] by blast
  then show ?thesis
    by (simp add: process_application_def Let_def)
qed

lemma application_loop:
  assumes "for_each (process_application cfg pf h grp env) (apps0, s0) xs = Inr st'"
  shows "\<exists>new. fst st' = apps0 @ new \<and> snd st' = foldl update_summary s0 new"
proof (rule for_each_invariant [OF assms])
  show "\<exists>new. fst (apps0, s0) = apps0 @ new \<and> snd (apps0, s0) = foldl update_summary s0 new"
    by (rule exI [of _ "[]"]) simp
next
  fix s x s''
  assume "\<exists>new. fst s = apps0 @ new \<and> snd s = foldl update_summary s0 new"
    and "process_application cfg pf h grp env s x = Inr s''"
  then obtain new d where "fst s = apps0 @ new" "snd s = foldl update_summary s0 new"
    "s'' = (fst s @ [d], update_summary (snd s) d)"
    using process_application_step by blast
  then have "fst s'' = apps0 @ (new @ [d]) \<and> snd s'' = foldl update_summary s0 (new @ [d])"
    by simp
  then show "\<exists>new. fst s'' = apps0 @ new \<and> snd s'' = foldl update_summary s0 new"
    by blast
qed

lemma process_environment_step:
  assumes "process_environment cfg pf h grp st env = Inr st'"
  shows "\<exists>e. st' = (fst st @ [e], foldl update_summary (snd st) (applications e))"
proof -
  from assms obtain apps s where
    loop: "for_each (process_application cfg pf h grp env) ([], snd st)
             (getApplications pf (flat_id grp) (env_id env)) = Inr (apps, s)"
    and st': "st' = (fst st @ [\<lparr>ed_id = env_id env, ed_name = env_name env,
                                isProduction = env_isProduction env, applications = apps\<rparr>], s)"
    by (auto simp: process_environment_def split: sum.splits)
  have "s = foldl update_summary (snd st) apps"
    using application_loop [OF loop] by simp
  with st' show ?thesis
    by simp
qed

lemma process_environment_returns:
  assumes "\<And>org env dom. names_are_text (getApplicationDetails pf org env dom)"
  shows "\<exists>st'. process_environment cfg pf h grp st env = Inr st'"
proof -
  have "\<exists>s'. process_application cfg pf h grp env s x = Inr s'" for s x
    using assms by (rule process_application_returns)
  then obtain r where "for_each (process_application cfg pf h grp env) ([], snd st)
             (getApplications pf (flat_id grp) (env_id env)) = Inr r"
    using for_each_returns [of "process_application cfg pf h grp env"] by blast
  then show ?thesis
    by (cases r) (simp add: process_environment_def)
qed

lemma environment_loop:
  assumes "for_each (process_environment cfg pf h grp) (envs0, s0) xs = Inr st'"
  shows "\<exists>new. fst st' = envs0 @ new
           \<and> snd st' = foldl update_summary s0 (concat (map applications new))"
proof (rule for_each_invariant [OF assms])
  show "\<exists>new. fst (envs0, s0) = envs0 @ new
          \<and> snd (envs0, s0) = foldl update_summary s0 (concat (map applications new))"
    by (rule exI [of _ "[]"]) simp
next
  fix s x s''
  assume "\<exists>new. fst s = envs0 @ new
            \<and> snd s = foldl update_summary s0 (concat (map applications new))"
    and "process_environment cfg pf h grp s x = Inr s''"
  then obtain new e where "fst s = envs0 @ new"
    "snd s = foldl update_summary s0 (concat (map applications new))"
    "s'' = (fst s @ [e], foldl update_summary (snd s) (applications e))"
    using process_environment_step by blast
  then have "fst s'' = envs0 @ (new @ [e])
     \<and> snd s'' = foldl update_summary s0 (concat (map applications (new @ [e])))"
    by simp
  then show "\<exists>new. fst s'' = envs0 @ new
     \<and> snd s'' = foldl update_summary s0 (concat (map applications new))"
    by blast
qed

lemma process_group_step:
  assumes "process_group cfg pf h invt grp = Inr invt'"
  shows "\<exists>g. businessGroups invt' = businessGroups invt @ [g]
           \<and> summary invt' =
               foldl update_summary (summary invt) (concat (map applications (environments g)))"
proof -
  from assms obtain envs s where
    loop: "for_each (process_environment cfg pf h grp) ([], summary invt)
             (getEnvironments pf (flat_id grp)) = Inr (envs, s)"
    and invt': "invt' = \<lparr>businessGroups = businessGroups invt @
                  [\<lparr>bg_id = flat_id grp, bg_name = flat_name grp,
                    bg_parentId = flat_parentId grp, environments = envs\<rparr>],
               summary = s\<rparr>"
    by (auto simp: process_group_def split: sum.splits)
  have "s = foldl update_summary (summary invt) (concat (map applications envs))"
    using environment_loop [OF loop] by simp
  with invt' show ?thesis
    by simp
qed

lemma process_group_returns:
  assumes "\<And>org env dom. names_are_text (getApplicationDetails pf org env dom)"
  shows "\<exists>invt'. process_group cfg pf h invt grp = Inr invt'"
proof -
  have "\<exists>s'. process_environment cfg pf h grp s x = Inr s'" for s x
    using assms by (rule process_environment_returns)
  then obtain r where "for_each (process_environment cfg pf h grp) ([], summary invt)
             (getEnvironments pf (flat_id grp)) = Inr r"
    using for_each_returns [of "process_environment cfg pf h grp"] by blast
  then show ?thesis
    by (cases r) (simp add: process_group_def)
qed

lemma leaf_applications_snoc:
  "businessGroups invt' = businessGroups invt @ [g] \<Longrightarrow>
   leaf_applications invt' = leaf_applications invt @ concat (map applications (environments g))"
  by (simp add: leaf_applications_def)

text \<open>
  The invariant of the loop over the business groups: the running summary is the fold of
  \<open>update_summary\<close> over the leaf applications of the groups pushed so far.
\<close>

lemma group_loop:
  assumes "for_each (process_group cfg pf h) invt0 gs = Inr invt'"
    and "summary invt0 = foldl update_summary z (leaf_applications invt0)"
  shows "summary invt' = foldl update_summary z (leaf_applications invt')"
proof (rule for_each_invariant [OF assms(1)])
  show "summary invt0 = foldl update_summary z (leaf_applications invt0)"
    by (rule assms(2))
next
  fix s x s''
  assume inv: "summary s = foldl update_summary z (leaf_applications s)"
    and step: "process_group cfg pf h s x = Inr s''"
  from process_group_step [OF step] obtain g where
    g: "businessGroups s'' = businessGroups s @ [g]"
      "summary s'' = foldl update_summary (summary s) (concat (map applications (environments g)))"
    by blast
  show "summary s'' = foldl update_summary z (leaf_applications s'')"
    using g(2) inv leaf_applications_snoc [OF g(1)] by simp
qed

lemma foldl_update_summary:
  "foldl update_summary s xs =
     \<lparr>totalApplications = totalApplications s + length xs,
      totalEstimatedFlows =
        foldl (\<lambda>t a. js_add t (or_zero (estimatedFlows (flowAnalysis a)))) (totalEstimatedFlows s) xs,
      totalEstimatedMonthlyMessages =
        foldl (\<lambda>t a. js_add t (or_zero (estimatedMonthlyMessages (messageAnalysis a))))
          (totalEstimatedMonthlyMessages s) xs\<rparr>"
  by (induction xs arbitrary: s) (simp_all add: update_summary_def)

lemma analyze_consumption_summary:
  assumes "analyzeBillableConsumption cfg pf h hierarchy = Inr invt"
  shows "summary invt = recomputed_summary invt"
proof -
  let ?z = "\<lparr>totalApplications = 0, totalEstimatedFlows = Fin 0,
             totalEstimatedMonthlyMessages = Fin 0\<rparr>"
  have "summary invt = foldl update_summary ?z (leaf_applications invt)"
    using assms unfolding analyzeBillableConsumption_def
    by (rule group_loop) (simp add: leaf_applications_def)
  then show ?thesis
    by (simp add: foldl_update_summary recomputed_summary_def)
qed

lemma analyze_consumption_returns:
  assumes "\<And>org env dom. names_are_text (getApplicationDetails pf org env dom)"
  shows "\<exists>invt. analyzeBillableConsumption cfg pf h hierarchy = Inr invt"
proof -
  have "\<exists>s'. process_group cfg pf h s x = Inr s'" for s x
    using assms by (rule process_group_returns)
  then show ?thesis
    unfolding analyzeBillableConsumption_def
    using for_each_returns [of "process_group cfg pf h"] by blast
qed

lemma report_applications_fold:
  "totalApps (foldl (report_application b) t apps) = totalApps t
   \<and> totalFlows (foldl (report_application b) t apps)
       = foldl (\<lambda>t a. js_add t (or_zero (estimatedFlows (flowAnalysis a)))) (totalFlows t) apps
   \<and> totalMonthlyMessages (foldl (report_application b) t apps)
       = foldl (\<lambda>t a. js_add t (or_zero (estimatedMonthlyMessages (messageAnalysis a))))
           (totalMonthlyMessages t) apps"
  by (induction apps arbitrary: t) (simp_all add: report_application_def Let_def)

lemma report_environment_fields:
  "totalApps (report_environment t e) = totalApps t + length (applications e)
   \<and> totalFlows (report_environment t e)
       = foldl (\<lambda>t a. js_add t (or_zero (estimatedFlows (flowAnalysis a)))) (totalFlows t)
           (applications e)
   \<and> totalMonthlyMessages (report_environment t e)
       = foldl (\<lambda>t a. js_add t (or_zero (estimatedMonthlyMessages (messageAnalysis a))))
           (totalMonthlyMessages t) (applications e)"
  by (simp add: report_environment_def Let_def report_applications_fold)

lemma report_environments_fold:
  "totalApps (foldl report_environment t envs)
     = totalApps t + length (concat (map applications envs))
   \<and> totalFlows (foldl report_environment t envs)
       = foldl (\<lambda>t a. js_add t (or_zero (estimatedFlows (flowAnalysis a)))) (totalFlows t)
           (concat (map applications envs))
   \<and> totalMonthlyMessages (foldl report_environment t envs)
       = foldl (\<lambda>t a. js_add t (or_zero (estimatedMonthlyMessages (messageAnalysis a))))
           (totalMonthlyMessages t) (concat (map applications envs))"
  by (induction envs arbitrary: t) (simp_all add: report_environment_fields)

lemma report_groups_fold:
  "totalApps (foldl report_group t gs)
     = totalApps t + length (concat (map (\<lambda>g. concat (map applications (environments g))) gs))
   \<and> totalFlows (foldl report_group t gs)
       = foldl (\<lambda>t a. js_add t (or_zero (estimatedFlows (flowAnalysis a)))) (totalFlows t)
           (concat (map (\<lambda>g. concat (map applications (environments g))) gs))
   \<and> totalMonthlyMessages (foldl report_group t gs)
       = foldl (\<lambda>t a. js_add t (or_zero (estimatedMonthlyMessages (messageAnalysis a))))
           (totalMonthlyMessages t)
           (concat (map (\<lambda>g. concat (map applications (environments g))) gs))"
  by (induction gs arbitrary: t) (simp_all add: report_group_def report_environments_fold)

lemma report_totals:
  assumes "exportCsv cfg"
  shows "\<exists>t. generateOrganizationSummaryReport cfg invt = Some t
           \<and> totalApps t = totalApplications (recomputed_summary invt)
           \<and> totalFlows t = totalEstimatedFlows (recomputed_summary invt)
           \<and> totalMonthlyMessages t = totalEstimatedMonthlyMessages (recomputed_summary invt)"
  using assms
  by (simp add: generateOrganizationSummaryReport_def report_groups_fold recomputed_summary_def
      leaf_applications_def)

text \<open>
  Claim C7: every inventory that the run builds has a running summary equal to the fresh
  recomputation over the leaf applications of the tree, and the totals that the
  organization summary report computes by traversing the tree again equal that summary.
  The run builds an inventory whenever the platform's metadata carries file names and
  domains that are strings or absent.
\<close>

theorem summary_equals_recomputation:
  "(\<forall>invt. analyzeBillableConsumption cfg pf h hierarchy = Inr invt \<longrightarrow>
      summary invt = recomputed_summary invt
      \<and> (exportCsv cfg \<longrightarrow>
           (\<exists>t. generateOrganizationSummaryReport cfg invt = Some t
              \<and> totalApps t = totalApplications (summary invt)
              \<and> totalFlows t = totalEstimatedFlows (summary invt)
              \<and> totalMonthlyMessages t = totalEstimatedMonthlyMessages (summary invt))))
   \<and> ((\<forall>org env dom. names_are_text (getApplicationDetails pf org env dom)) \<longrightarrow>
        (\<exists>invt. analyzeBillableConsumption cfg pf h hierarchy = Inr invt))"
proof (intro conjI allI impI)
  fix invt
  assume invt: "analyzeBillableConsumption cfg pf h hierarchy = Inr invt"
  then show s: "summary invt = recomputed_summary invt"
    by (rule analyze_consumption_summary)
  assume "exportCsv cfg"
  then show "\<exists>t. generateOrganizationSummaryReport cfg invt = Some t
             \<and> totalApps t = totalApplications (summary invt)
             \<and> totalFlows t = totalEstimatedFlows (summary invt)
             \<and> totalMonthlyMessages t = totalEstimatedMonthlyMessages (summary invt)"
    using report_totals [of cfg invt] s by simp
next
  assume "\<forall>org env dom. names_are_text (getApplicationDetails pf org env dom)"
  then show "\<exists>invt. analyzeBillableConsumption cfg pf h hierarchy = Inr invt"
    by (intro analyze_consumption_returns) simp
qed

theorem summary_equals_recomputation_witness:
  "exportCsv \<lparr>exportCsv = True, downloadJars = True\<rparr>
   \<and> (\<forall>org env dom. names_are_text (getApplicationDetails example_platform org env dom))
   \<and> (\<exists>invt t.
         analyzeBillableConsumption \<lparr>exportCsv = True, downloadJars = True\<rparr> example_platform
           (uniform_host False (Inl FsError) (Inl ShellError)) root_with_two_children = Inr invt
         \<and> summary invt = \<lparr>totalApplications = 2, totalEstimatedFlows = Fin 15,
                             totalEstimatedMonthlyMessages = Fin 3000\<rparr>
         \<and> recomputed_summary invt = \<lparr>totalApplications = 2, totalEstimatedFlows = Fin 15,
                                         totalEstimatedMonthlyMessages = Fin 3000\<rparr>
         \<and> generateOrganizationSummaryReport \<lparr>exportCsv = True, downloadJars = True\<rparr> invt
             = Some t
         \<and> totalApps t = 2 \<and> totalFlows t = Fin 15 \<and> totalMonthlyMessages t = Fin 3000)"
proof -
  let ?cfg = "\<lparr>exportCsv = True, downloadJars = True\<rparr>"
  let ?h = "uniform_host False (Inl FsError) (Inl ShellError)"
  have c: "exportCsv ?cfg"
    by simp
  have n: "\<forall>org env dom. names_are_text (getApplicationDetails example_platform org env dom)"
    by (simp add: example_platform_def)
  have papi: "estimateBasedOnAppDetails
            (Some \<lparr>fileName = Absent, domain = Text ''order-papi-database'',
                   workers = Some \<lparr>amount = Some 1, type = Some \<lparr>weight = Some 0\<rparr>\<rparr>\<rparr>)
          = Inr \<lparr>estimatedFlows = Fin 8, confidence = Low,
                 source = ''PAPI domain pattern + Database pattern'', sizeMB = None,
                 actualAnalysis = None\<rparr>"
    by (simp add: name_eval)
  have eapi: "estimateBasedOnAppDetails
            (Some \<lparr>fileName = Text ''customer-eapi-salesforce-v1.jar'',
                   domain = Text ''customer'', workers = None\<rparr>)
          = Inr \<lparr>estimatedFlows = Fin 7, confidence = Low,
                 source = ''EAPI filename pattern + Salesforce pattern'', sizeMB = None,
                 actualAnalysis = None\<rparr>"
    by (simp add: name_eval)
  have msgs: "estimateMessageVolume (Some flows_3000_over_30_days) =
                \<lparr>estimatedDailyMessages = Fin 100, estimatedMonthlyMessages = Fin 3000,
                 msg_confidence = High, msg_source = ''Flow-level message metrics''\<rparr>"
    by (simp add: estimateMessageVolume_Some message_eval flows_3000_over_30_days_def)
  have none: "estimatedMonthlyMessages (estimateMessageVolume None) = Fin 0"
    by (simp add: estimateMessageVolume_def)
  from n obtain invt where
    run: "analyzeBillableConsumption ?cfg example_platform ?h root_with_two_children = Inr invt"
    using summary_equals_recomputation [of ?cfg example_platform ?h root_with_two_children]
    by blast
  have "analyzeBillableConsumption ?cfg example_platform ?h root_with_two_children
          = Inr invt \<Longrightarrow>
        summary invt = \<lparr>totalApplications = 2, totalEstimatedFlows = Fin 15,
                          totalEstimatedMonthlyMessages = Fin 3000\<rparr>"
    by (auto simp add: analyzeBillableConsumption_def root_with_two_children_def
        process_group_def process_environment_def process_application_def example_platform_def
        Let_def analyze_no_jar papi eapi msgs none update_summary_def or_zero_def)
  then have s: "summary invt = \<lparr>totalApplications = 2, totalEstimatedFlows = Fin 15,
                          totalEstimatedMonthlyMessages = Fin 3000\<rparr>"
    using run by simp
  have r: "recomputed_summary invt = summary invt"
    using summary_equals_recomputation [of ?cfg example_platform ?h root_with_two_children] run
    by simp
  obtain t where "generateOrganizationSummaryReport ?cfg invt = Some t"
    "totalApps t = totalApplications (summary invt)"
    "totalFlows t = totalEstimatedFlows (summary invt)"
    "totalMonthlyMessages t = totalEstimatedMonthlyMessages (summary invt)"
    using summary_equals_recomputation [of ?cfg example_platform ?h root_with_two_children] c run
    by auto
  then show ?thesis
    using c n run s r by auto
qed

end
